theory Spec2Isabelle
  imports Main "HOL-Library.Sublist" "HOL-Library.AList"
begin

section \<open>Data model\<close>

text \<open>
  The development embeds \<^verbatim>\<open>profanity_filter/profanity_filter.py\<close>. Python strings are
  \<^typ>\<open>string\<close>, an \<^verbatim>\<open>OrderedSet\<close> is a duplicate-free list in insertion order, a
  \<^verbatim>\<open>dict\<close> (and a \<^verbatim>\<open>defaultdict\<close>, which a read of a missing key extends) is an
  association list read with \<^const>\<open>map_of\<close>, a \<^verbatim>\<open>set\<close> is a HOL set. Methods take the filter object as an explicit state and
  return it updated; a method that may raise returns the exception as a value next
  to the state the object has at that moment.

  The in-process cache is modelled (\<^verbatim>\<open>cache_redis_connection_url = None\<close>, the default);
  the Redis backend is an external service.
\<close>

type_synonym Language = string

text \<open>
  Modelled from the spec: \<^verbatim>\<open>AnalysisType\<close> is declared in \<^verbatim>\<open>types_\<close>, which is not among the
  sources. The code refers to its member \<^verbatim>\<open>DEEP\<close> only ("deep analysis" in the spec);
  every other member is \<open>OTHER name\<close>.
\<close>
datatype AnalysisType = DEEP | OTHER string

text \<open>
  Modelled from the spec: \<^verbatim>\<open>Word\<close> is declared in \<^verbatim>\<open>types_\<close>; the spec gives its three
  fields, the last optional and absent by default. Two words are equal when their
  fields are.
\<close>
record Word =
  uncensored :: string
  censored :: string
  original_profane_word :: "string option"

datatype error = ProfanityFilterError | ValueError | UnboundLocalError

text \<open>A substring with its half-open index range, as \<^verbatim>\<open>substrings_indexes\<close> yields it.\<close>
type_synonym Substring = "string \<times> nat \<times> nat"

type_synonym ProfaneWordDictionaries = "(Language \<times> string list) list"

text \<open>The only spell checker the module defines; \<^verbatim>\<open>spell\<close> and \<^verbatim>\<open>stem\<close> return the word.\<close>
datatype HunSpell = DummyHunSpell

fun spell :: "HunSpell \<Rightarrow> string \<Rightarrow> string" where
  "spell DummyHunSpell word = word"

fun stem :: "HunSpell \<Rightarrow> string \<Rightarrow> string list" where
  "stem DummyHunSpell word = [word]"

text \<open>
  What the module reads from outside itself: the data directory (for a language, the
  lines of \<^verbatim>\<open><language>_profane_words.txt\<close> when that is a file), spaCy's lemma of a
  token, Python's \<^verbatim>\<open>str.lower\<close>, and \<^verbatim>\<open>spacy_utlis.make_token\<close>, which is not among the
  sources: called on a string with the pipeline of a language, it gives a token or
  raises. A spaCy token is represented by its text, so \<open>make_token\<close> gives the text of the
  token made, which need not be the string it was made from.
\<close>
record Env =
  data_dir :: "Language \<Rightarrow> string list option"
  make_token :: "Language option \<Rightarrow> string \<Rightarrow> error + string"
  token_lemma :: "Language option \<Rightarrow> string \<Rightarrow> string"
  lower :: "string \<Rightarrow> string"

record ProfanityFilter =
  analyses :: "AnalysisType set"
  cache_clearing_disabled :: bool
  censor_char :: string
  censor_whole_words :: bool
  custom_profane_word_dictionaries :: ProfaneWordDictionaries
  extra_profane_word_dictionaries :: ProfaneWordDictionaries
  languages :: "Language list"
  profane_word_dictionary_files :: "Language list"
  spells :: "(Language \<times> HunSpell) list"
  censored_words :: "(string \<times> Word) list"
  words_with_no_profanity_inside :: "string set"
  censor_dictionaries :: ProfaneWordDictionaries
  profane_word_dictionaries :: ProfaneWordDictionaries

section \<open>Containers\<close>

text \<open>\<^verbatim>\<open>OrderedSet.add\<close>, \<^verbatim>\<open>OrderedSet(iterable)\<close> and \<^verbatim>\<open>a | b\<close>.\<close>

definition os_add :: "'a list \<Rightarrow> 'a \<Rightarrow> 'a list" where
  "os_add s x = (if x \<in> set s then s else s @ [x])"

definition os_union :: "'a list \<Rightarrow> 'a list \<Rightarrow> 'a list" where
  "os_union s xs = foldl os_add s xs"

definition OrderedSet :: "'a list \<Rightarrow> 'a list" where
  "OrderedSet xs = os_union [] xs"

text \<open>Reading a \<^verbatim>\<open>defaultdict(lambda: OrderedSet())\<close>: a missing key reads as the empty set.\<close>

definition dd_get :: "('k \<times> 'v list) list \<Rightarrow> 'k \<Rightarrow> 'v list" where
  "dd_get d k = (case map_of d k of None \<Rightarrow> [] | Some v \<Rightarrow> v)"

text \<open>
  Indexing it, \<^verbatim>\<open>d[k]\<close>: a missing key is inserted with the empty set, after the keys the
  dictionary has, and the dictionary is changed by the read.
\<close>

definition dd_getitem :: "('k \<times> 'v list) list \<Rightarrow> 'k \<Rightarrow> 'v list \<times> ('k \<times> 'v list) list" where
  "dd_getitem d k = (case map_of d k of None \<Rightarrow> ([], d @ [(k, [])]) | Some v \<Rightarrow> (v, d))"

text \<open>Python's \<^verbatim>\<open>a in b\<close> on two strings: \<open>a\<close> is a contiguous part of \<open>b\<close>.\<close>

fun str_in :: "string \<Rightarrow> string \<Rightarrow> bool" where
  "str_in a [] = (a = [])"
| "str_in a (c # cs) = (prefix a (c # cs) \<or> str_in a cs)"

text \<open>
  Python's \<^verbatim>\<open>s.replace(old, new)\<close>: every occurrence of \<open>old\<close>, left to right and without
  overlap; an empty \<open>old\<close> matches before every character and at the end.
\<close>

fun replace_nonempty :: "string \<Rightarrow> string \<Rightarrow> string \<Rightarrow> nat \<Rightarrow> string" where
  "replace_nonempty [] old new skip = []"
| "replace_nonempty (c # cs) old new skip =
     (if skip > 0 then replace_nonempty cs old new (skip - 1)
      else if prefix old (c # cs) then new @ replace_nonempty cs old new (length old - 1)
      else c # replace_nonempty cs old new 0)"

definition replace :: "string \<Rightarrow> string \<Rightarrow> string \<Rightarrow> string" where
  "replace s old new =
     (if old = [] then new @ concat (map (\<lambda>c. c # new) s) else replace_nonempty s old new 0)"

text \<open>\<^verbatim>\<open>str.isspace\<close> on the code points below 256, and \<^verbatim>\<open>str.strip()\<close>.\<close>

definition isspace :: "char \<Rightarrow> bool" where
  "isspace c = ((of_char c :: nat) \<in> {9, 10, 11, 12, 13, 28, 29, 30, 31, 32, 133, 160})"

definition strip :: "string \<Rightarrow> string" where
  "strip s = rev (dropWhile isspace (rev (dropWhile isspace s)))"

section \<open>Substring enumeration\<close>

text \<open>
  \<^verbatim>\<open>more_itertools.substrings_indexes(seq, reverse)\<close>, a library function: the lengths
  \<open>1..len(seq)\<close> ascending, descending when \<open>reverse\<close>, and for each length the start
  indices ascending.
\<close>

definition substrings_indexes :: "string \<Rightarrow> bool \<Rightarrow> Substring list" where
  "substrings_indexes seq reverse =
     concat (map (\<lambda>L. map (\<lambda>i. (take L (drop i seq), i, i + L)) [0..<length seq - L + 1])
                 (if reverse then rev [1..<length seq + 1] else [1..<length seq + 1]))"

definition drop_fully_censored_words :: "ProfanityFilter \<Rightarrow> Substring list \<Rightarrow> Substring list" where
  "drop_fully_censored_words self substrings =
     filter (\<lambda>(word, start, finish). \<not> list_all (\<lambda>char. [char] = censor_char self) word) substrings"

text \<open>
  The generator \<^verbatim>\<open>_drop_substrings\<close>: its local state is the set \<^verbatim>\<open>drop_intervals\<close> and the
  rest of the iterator it reads. \<open>gen_resume\<close> runs the \<^verbatim>\<open>for\<close> loop up to the next
  \<^verbatim>\<open>yield\<close> (\<open>None\<close> is \<^verbatim>\<open>StopIteration\<close>); \<open>gen_next\<close> is the first \<^verbatim>\<open>next(...)\<close>, and
  \<open>gen_send\<close> is \<^verbatim>\<open>send(drop)\<close> at a \<^verbatim>\<open>yield\<close>.
\<close>

record DropSubstrings =
  drop_intervals :: "(nat \<times> nat) set"
  pending :: "Substring list"

fun gen_resume :: "(nat \<times> nat) set \<Rightarrow> Substring list \<Rightarrow> (Substring \<times> DropSubstrings) option" where
  "gen_resume D [] = None"
| "gen_resume D ((word, start, finish) # rest) =
     (if (\<forall>(drop_start, drop_finish) \<in> D. start < drop_start \<or> finish > drop_finish)
      then Some ((word, start, finish), \<lparr>drop_intervals = D, pending = rest\<rparr>)
      else gen_resume D rest)"

definition drop_substrings :: "Substring list \<Rightarrow> DropSubstrings" where
  "drop_substrings substrings = \<lparr>drop_intervals = {}, pending = substrings\<rparr>"

definition gen_next :: "DropSubstrings \<Rightarrow> (Substring \<times> DropSubstrings) option" where
  "gen_next g = gen_resume (drop_intervals g) (pending g)"

definition gen_send :: "DropSubstrings \<Rightarrow> nat option \<times> nat option \<Rightarrow> (Substring \<times> DropSubstrings) option" where
  "gen_send g sent =
     (case sent of
        (Some drop_start, Some drop_finish) \<Rightarrow>
          gen_resume (insert (drop_start, drop_finish) (drop_intervals g)) (pending g)
      | _ \<Rightarrow> gen_resume (drop_intervals g) (pending g))"

section \<open>Configuration and dictionary resolution\<close>

text \<open>
  \<^verbatim>\<open>AVAILABLE_ANALYSES\<close> is the module constant \<^verbatim>\<open>frozenset()\<close>.
\<close>

definition AVAILABLE_ANALYSES :: "AnalysisType set" where
  "AVAILABLE_ANALYSES = {}"

definition update_profane_word_dictionary_files ::
  "Env \<Rightarrow> ProfanityFilter \<Rightarrow> error option \<times> ProfanityFilter" where
  "update_profane_word_dictionary_files env self =
     (let files = filter (\<lambda>language. data_dir env language \<noteq> None) (languages self);
          self1 = self\<lparr>profane_word_dictionary_files := files\<rparr>
      in if files = [] then (Some ProfanityFilterError, self1) else (None, self1))"

text \<open>
  \<^verbatim>\<open>_load_profane_word_dictionaries\<close> reads every file found, one word per line.
\<close>

definition load_profane_word_dictionaries ::
  "Env \<Rightarrow> ProfanityFilter \<Rightarrow> error option \<times> ProfanityFilter" where
  "load_profane_word_dictionaries env self =
     (case update_profane_word_dictionary_files env self of
        (Some e, self1) \<Rightarrow> (Some e, self1)
      | (None, self1) \<Rightarrow>
          (None, self1\<lparr>censor_dictionaries :=
             map (\<lambda>language. (language, OrderedSet (map strip (the (data_dir env language)))))
                 (profane_word_dictionary_files self1)\<rparr>))"

text \<open>
  The body of the cached property \<^verbatim>\<open>profane_word_dictionaries\<close>. The test
  \<^verbatim>\<open>if self.custom_profane_word_dictionaries\<close> is the truth value of the whole dictionary:
  true when it has a key. The extras are merged for the configured languages that are
  keys of the extra dictionaries, in the order of \<^verbatim>\<open>languages\<close>.
\<close>

definition merge_extra :: "ProfaneWordDictionaries \<Rightarrow> ProfaneWordDictionaries \<Rightarrow> Language list \<Rightarrow> ProfaneWordDictionaries" where
  "merge_extra result extra langs =
     foldl (\<lambda>r language. AList.update language (os_union (dd_get r language) (dd_get extra language)) r)
           result langs"

definition compute_profane_word_dictionaries ::
  "Env \<Rightarrow> ProfanityFilter \<Rightarrow> (error + ProfaneWordDictionaries) \<times> ProfanityFilter" where
  "compute_profane_word_dictionaries env self =
     (let extra_languages =
            filter (\<lambda>language. language \<in> fst ` set (extra_profane_word_dictionaries self)) (languages self)
      in if custom_profane_word_dictionaries self \<noteq> []
         then (Inr (merge_extra (custom_profane_word_dictionaries self)
                      (extra_profane_word_dictionaries self) extra_languages), self)
         else (case load_profane_word_dictionaries env self of
                 (Some e, self1) \<Rightarrow> (Inl e, self1)
               | (None, self1) \<Rightarrow>
                   (Inr (merge_extra (censor_dictionaries self1)
                           (extra_profane_word_dictionaries self1) extra_languages), self1)))"

text \<open>
  The base dictionary of a language: the words of its file, and none without a file.
\<close>

definition base_dictionary :: "Env \<Rightarrow> Language \<Rightarrow> string list" where
  "base_dictionary env language =
     (case data_dir env language of None \<Rightarrow> [] | Some lines \<Rightarrow> OrderedSet (map strip lines))"

text \<open>
  The resolution as the specification words it, language by language: the custom
  dictionary of the language when that one is not empty, the base dictionary of the
  language otherwise, and the extra dictionary of the language united with it.
\<close>

definition spec_resolution :: "Env \<Rightarrow> ProfanityFilter \<Rightarrow> Language \<Rightarrow> string list" where
  "spec_resolution env self language =
     os_union (if dd_get (custom_profane_word_dictionaries self) language \<noteq> []
               then dd_get (custom_profane_word_dictionaries self) language
               else base_dictionary env language)
              (dd_get (extra_profane_word_dictionaries self) language)"

definition update_profane_word_dictionaries ::
  "Env \<Rightarrow> ProfanityFilter \<Rightarrow> error option \<times> ProfanityFilter" where
  "update_profane_word_dictionaries env self =
     (if cache_clearing_disabled self then (None, self)
      else (case compute_profane_word_dictionaries env self of
              (Inl e, self1) \<Rightarrow> (Some e, self1)
            | (Inr d, self1) \<Rightarrow> (None, self1\<lparr>profane_word_dictionaries := d\<rparr>)))"

definition clear_words_cache :: "ProfanityFilter \<Rightarrow> ProfanityFilter" where
  "clear_words_cache self = self\<lparr>censored_words := [], words_with_no_profanity_inside := {}\<rparr>"

definition clear_cache :: "Env \<Rightarrow> ProfanityFilter \<Rightarrow> error option \<times> ProfanityFilter" where
  "clear_cache env self =
     (if cache_clearing_disabled self then (None, self)
      else (case update_profane_word_dictionary_files env self of
              (Some e, self1) \<Rightarrow> (Some e, self1)
            | (None, self1) \<Rightarrow>
                (case update_profane_word_dictionaries env self1 of
                   (Some e, self2) \<Rightarrow> (Some e, self2)
                 | (None, self2) \<Rightarrow> (None, clear_words_cache self2))))"

text \<open>The property setters the claims refer to: assign, then \<^verbatim>\<open>clear_cache()\<close>.\<close>

definition set_analyses :: "Env \<Rightarrow> ProfanityFilter \<Rightarrow> AnalysisType set \<Rightarrow> error option \<times> ProfanityFilter" where
  "set_analyses env self v = clear_cache env (self\<lparr>analyses := AVAILABLE_ANALYSES \<inter> v\<rparr>)"

definition set_censor_char :: "Env \<Rightarrow> ProfanityFilter \<Rightarrow> string \<Rightarrow> error option \<times> ProfanityFilter" where
  "set_censor_char env self v =
     (if length v \<noteq> 1 then (Some ValueError, self)
      else clear_cache env (self\<lparr>censor_char := v\<rparr>))"

definition set_censor_whole_words :: "Env \<Rightarrow> ProfanityFilter \<Rightarrow> bool \<Rightarrow> error option \<times> ProfanityFilter" where
  "set_censor_whole_words env self v = clear_cache env (self\<lparr>censor_whole_words := v\<rparr>)"


definition set_extra_profane_word_dictionaries ::
  "Env \<Rightarrow> ProfanityFilter \<Rightarrow> ProfaneWordDictionaries option \<Rightarrow> error option \<times> ProfanityFilter" where
  "set_extra_profane_word_dictionaries env self v =
     clear_cache env (self\<lparr>extra_profane_word_dictionaries :=
       (case v of None \<Rightarrow> [] | Some d \<Rightarrow> map (\<lambda>(language, ws). (language, OrderedSet ws)) d)\<rparr>)"

section \<open>Censoring one candidate\<close>

definition generate_fully_censored_word :: "ProfanityFilter \<Rightarrow> string \<Rightarrow> string" where
  "generate_fully_censored_word self word = concat (replicate (length word) (censor_char self))"

text \<open>
  \<^verbatim>\<open>_get_spells\<close>: the dummy checker unless deep analysis is on; then every checker of
  \<^verbatim>\<open>spells\<close> for no language, and else the first one found for the language or a
  configured one, the dummy when none is.
\<close>

definition get_spells :: "ProfanityFilter \<Rightarrow> Language option \<Rightarrow> HunSpell list" where
  "get_spells self language =
     (if DEEP \<notin> analyses self then [DummyHunSpell]
      else (case language of
              None \<Rightarrow> OrderedSet (map snd (spells self))
            | Some l \<Rightarrow>
                (case List.find (\<lambda>l'. map_of (spells self) l' \<noteq> None) (os_union [l] (languages self)) of
                   None \<Rightarrow> [DummyHunSpell]
                 | Some l' \<Rightarrow> [the (map_of (spells self) l')])))"

definition stems :: "ProfanityFilter \<Rightarrow> Language option \<Rightarrow> string \<Rightarrow> string list" where
  "stems self language word =
     OrderedSet (concat (map (\<lambda>sp. stem sp word) (get_spells self language)))"

definition normal_forms :: "string \<Rightarrow> string list" where
  "normal_forms word = OrderedSet [word]"

text \<open>
  \<^verbatim>\<open>_lemmas\<close>: the surface text, spaCy's lemma in lower case (the lowered text for a
  pronoun), the stems and the normal form.
\<close>

definition lemmas_of :: "Env \<Rightarrow> ProfanityFilter \<Rightarrow> Language option \<Rightarrow> string \<Rightarrow> string list" where
  "lemmas_of env self language word =
     (if word = [] then []
      else (let spacy_lemma = token_lemma env language word;
                spacy_lemma1 = (if spacy_lemma \<noteq> ''-PRON-'' then lower env spacy_lemma else lower env word)
            in os_union (os_union (os_add (os_add [] word) spacy_lemma1) (stems self language word))
                 (normal_forms word)))"

definition is_dictionary_word :: "ProfanityFilter \<Rightarrow> Language option \<Rightarrow> string \<Rightarrow> bool" where
  "is_dictionary_word self language word =
     list_ex (\<lambda>sp. spell sp word \<noteq> []) (get_spells self language)"

definition has_no_profanity :: "ProfanityFilter \<Rightarrow> string list \<Rightarrow> bool" where
  "has_no_profanity self ws =
     list_ex (\<lambda>word. \<exists>word_with_no_profanity_inside \<in> words_with_no_profanity_inside self.
                      str_in word word_with_no_profanity_inside) ws"

text \<open>
  \<^verbatim>\<open>_make_spacy_token\<close> on a string: \<^verbatim>\<open>make_token\<close> with the pipeline \<^verbatim>\<open>_get_nlp\<close> finds for
  the language.
\<close>

definition make_spacy_token :: "Env \<Rightarrow> Language option \<Rightarrow> string \<Rightarrow> error + string" where
  "make_spacy_token env language word = make_token env language word"

text \<open>
  \<^verbatim>\<open>_is_profane_word\<close> reads the cached property: the values of every dictionary for no
  language, and else \<^verbatim>\<open>self.profane_word_dictionaries[language]\<close>, which enters a language
  that has no dictionary with an empty one.
\<close>

definition is_profane_word :: "ProfanityFilter \<Rightarrow> Language option \<Rightarrow> string \<Rightarrow> bool \<times> ProfanityFilter" where
  "is_profane_word self language word =
     (case language of
        None \<Rightarrow> (list_ex (\<lambda>(l, d). word \<in> set d) (profane_word_dictionaries self), self)
      | Some l \<Rightarrow>
          (case dd_getitem (profane_word_dictionaries self) l of
             (profane_word_dictionary, d1) \<Rightarrow>
               (word \<in> set profane_word_dictionary, self\<lparr>profane_word_dictionaries := d1\<rparr>)))"

definition get_censored_word :: "ProfanityFilter \<Rightarrow> string \<Rightarrow> Word option" where
  "get_censored_word self word = map_of (censored_words self) word"

definition save_censored_word :: "ProfanityFilter \<Rightarrow> Word \<Rightarrow> ProfanityFilter" where
  "save_censored_word self w =
     self\<lparr>censored_words := AList.update (uncensored w) w (censored_words self)\<rparr>"

definition save_word_with_no_profanity_inside :: "ProfanityFilter \<Rightarrow> string \<Rightarrow> ProfanityFilter" where
  "save_word_with_no_profanity_inside self word =
     self\<lparr>words_with_no_profanity_inside := insert word (words_with_no_profanity_inside self)\<rparr>"

text \<open>
  The \<^verbatim>\<open>for lemma in lemmas\<close> loop of \<^verbatim>\<open>_censor_word_part\<close> up to the first profane lemma:
  that lemma, or \<open>None\<close> when the loop runs to its end.
\<close>

fun first_profane_lemma ::
  "ProfanityFilter \<Rightarrow> Language option \<Rightarrow> string list \<Rightarrow> string option \<times> ProfanityFilter" where
  "first_profane_lemma self language [] = (None, self)"
| "first_profane_lemma self language (l # ls) =
     (case is_profane_word self language l of
        (True, self1) \<Rightarrow> (Some l, self1)
      | (False, self1) \<Rightarrow> first_profane_lemma self1 language ls)"

text \<open>
  \<^verbatim>\<open>_censor_word_part\<close>, on the text of the token it is given. The local variable
  \<^verbatim>\<open>censored\<close> is assigned under \<^verbatim>\<open>if self.censor_whole_words\<close> only, so reading it in the
  next statement raises \<^verbatim>\<open>UnboundLocalError\<close> when the flag is off.
\<close>

definition censor_word_part ::
  "Env \<Rightarrow> ProfanityFilter \<Rightarrow> Language option \<Rightarrow> string \<Rightarrow> (error + Word \<times> bool) \<times> ProfanityFilter" where
  "censor_word_part env self language word =
     (let ls = lemmas_of env self language word in
      if has_no_profanity self ls
      then (Inr (\<lparr>uncensored = word, censored = word, original_profane_word = None\<rparr>, True), self)
      else (case get_censored_word self word of
              Some censored_word \<Rightarrow> (Inr (censored_word, False), self)
            | None \<Rightarrow>
                (case first_profane_lemma self language ls of
                   (Some l, self1) \<Rightarrow>
                     (if censor_whole_words self1
                      then (let censored_word =
                                  \<lparr>uncensored = word,
                                   censored = generate_fully_censored_word self1 word,
                                   original_profane_word = Some l\<rparr>
                            in (Inr (censored_word, False), save_censored_word self1 censored_word))
                      else (Inl UnboundLocalError, self1))
                 | (None, self1) \<Rightarrow>
                     (Inr (\<lparr>uncensored = word, censored = word, original_profane_word = None\<rparr>, False),
                      self1))))"

section \<open>The censoring engine\<close>

lemma gen_resume_pending:
  "gen_resume D xs = Some (sub, g) \<Longrightarrow> length (pending g) < length xs"
  by (induction xs) (auto split: if_splits)

lemma gen_send_pending:
  "gen_send g sent = Some (sub, g') \<Longrightarrow> length (pending g') < length (pending g)"
  by (auto simp: gen_send_def dest: gen_resume_pending split: prod.splits option.splits)

text \<open>
  The inner \<^verbatim>\<open>while True\<close> loop of \<^verbatim>\<open>_censor_word\<close>, entered with the first substring the
  generator gave. Every substring is made a token first, and it is the text of that token
  that is censored, compared and replaced. The loop returns at a \<^verbatim>\<open>break\<close>, at the
  \<^verbatim>\<open>StopIteration\<close> of \<^verbatim>\<open>send\<close>, or with the exception of \<^verbatim>\<open>_make_spacy_token\<close> or of
  \<^verbatim>\<open>_censor_word_part\<close>.
\<close>

function censor_word_scan ::
  "Env \<Rightarrow> ProfanityFilter \<Rightarrow> Language option \<Rightarrow> string \<Rightarrow> Word \<Rightarrow> Word \<Rightarrow> nat option \<times> nat option
     \<Rightarrow> Substring \<Rightarrow> DropSubstrings \<Rightarrow> (error + Word) \<times> ProfanityFilter" where
  "censor_word_scan env self language word censored_word_prev censored_word no_profanity
       (censored_part, start, finish) g =
     (case make_spacy_token env language censored_part of
        Inl e \<Rightarrow> (Inl e, self)
      | Inr censored_part_text \<Rightarrow>
     (case censor_word_part env self language censored_part_text of
        (Inl e, self1) \<Rightarrow> (Inl e, self1)
      | (Inr (censored_censored_part, no_profanity_inside), self1) \<Rightarrow>
          (let no_profanity1 = (if no_profanity_inside then (Some start, Some finish) else no_profanity);
               censored_word1 =
                 (if censored censored_censored_part \<noteq> censored_part_text
                  then \<lparr>uncensored = word,
                        censored = (if censor_whole_words self1
                                    then generate_fully_censored_word self1 word
                                    else replace (censored censored_word_prev) censored_part_text
                                           (censored censored_censored_part)),
                        original_profane_word = original_profane_word censored_censored_part\<rparr>
                  else censored_word)
           in if DEEP \<notin> analyses self1 \<or> censored_word1 \<noteq> censored_word_prev
              then (Inr censored_word1, self1)
              else (case gen_send g no_profanity1 of
                      None \<Rightarrow> (Inr censored_word1, self1)
                    | Some (substring, g') \<Rightarrow>
                        censor_word_scan env self1 language word censored_word_prev censored_word1
                          no_profanity1 substring g'))))"
  by pat_completeness auto
termination
  by (relation "measure (\<lambda>(env, self, language, word, prev, cur, np, sub, g). length (pending g))")
     (auto dest: gen_send_pending)

declare censor_word_scan.simps [simp del]

text \<open>
  The outer loop \<^verbatim>\<open>while censored_word != censored_word_prev\<close>. \<open>censored_word_prev\<close> is
  \<open>None\<close> before the first pass. The last component counts the passes begun; it is
  not a variable of the source.
\<close>

partial_function (option) censor_word_loop ::
  "Env \<Rightarrow> ProfanityFilter \<Rightarrow> Language option \<Rightarrow> string \<Rightarrow> Word option \<Rightarrow> Word \<Rightarrow> nat
     \<Rightarrow> ((error + Word) \<times> ProfanityFilter \<times> nat) option" where
  "censor_word_loop env self language word censored_word_prev censored_word passes =
     (if Some censored_word = censored_word_prev then Some (Inr censored_word, self, passes)
      else (case gen_next (drop_substrings (drop_fully_censored_words self
                     (substrings_indexes (censored censored_word) True))) of
              None \<Rightarrow> Some (Inr censored_word, self, Suc passes)
            | Some (substring, g) \<Rightarrow>
                (case censor_word_scan env self language word censored_word censored_word
                        (None, None) substring g of
                   (Inl e, self1) \<Rightarrow> Some (Inl e, self1, Suc passes)
                 | (Inr censored_word1, self1) \<Rightarrow>
                     censor_word_loop env self1 language word (Some censored_word) censored_word1
                       (Suc passes))))"

text \<open>
  \<^verbatim>\<open>_censor_word\<close>, the private method, on a token whose text is \<open>word\<close>: the loop, then the
  two caches. \<open>None\<close> is a loop that never ends.
\<close>

definition censor_word_token ::
  "Env \<Rightarrow> ProfanityFilter \<Rightarrow> Language option \<Rightarrow> string \<Rightarrow> ((error + Word) \<times> ProfanityFilter \<times> nat) option" where
  "censor_word_token env self language word =
     (case censor_word_loop env self language word None
             \<lparr>uncensored = word, censored = word, original_profane_word = None\<rparr> 0 of
        None \<Rightarrow> None
      | Some (Inl e, self1, passes) \<Rightarrow> Some (Inl e, self1, passes)
      | Some (Inr censored_word, self1, passes) \<Rightarrow>
          Some (Inr censored_word,
                (if censored censored_word = word
                 then (if DEEP \<in> analyses self1 \<and> \<not> is_dictionary_word self1 language word
                       then save_word_with_no_profanity_inside self1 word
                       else self1)
                 else save_censored_word self1 censored_word),
                passes))"

text \<open>
  \<^verbatim>\<open>censor_word\<close>, the public method, on a string: it makes the token and calls
  \<^verbatim>\<open>_censor_word\<close> on it. No pass is begun when no token is made.
\<close>

definition censor_word ::
  "Env \<Rightarrow> ProfanityFilter \<Rightarrow> Language option \<Rightarrow> string \<Rightarrow> ((error + Word) \<times> ProfanityFilter \<times> nat) option" where
  "censor_word env self language word =
     (case make_spacy_token env language word of
        Inl e \<Rightarrow> Some (Inl e, self, 0)
      | Inr token \<Rightarrow> censor_word_token env self language token)"

declare censor_word_loop.simps [code]

section \<open>Invariants of a configured filter\<close>

text \<open>
  What holds of the filter after its construction and after every call below: the censor
  character is one character (its setter refuses anything else), deep analysis is off
  (the setter of \<^verbatim>\<open>analyses\<close> intersects with the empty \<^verbatim>\<open>AVAILABLE_ANALYSES\<close>), and every entry
  of the cache of censored words is stored under its uncensored text and is fully masked
  (the cache is emptied when the configuration changes, with whole-word masking only
  fully masked words are stored, and without it nothing is stored at all).
\<close>

definition cache_ok :: "ProfanityFilter \<Rightarrow> bool" where
  "cache_ok self =
     list_all (\<lambda>(k, w). uncensored w = k \<and> censored w = generate_fully_censored_word self k)
       (censored_words self)"

definition well_formed :: "ProfanityFilter \<Rightarrow> bool" where
  "well_formed self = (length (censor_char self) = 1 \<and> DEEP \<notin> analyses self \<and> cache_ok self)"

text \<open>
  The number of characters of a text that are not the censor character: what the passes
  of the loop use up.
\<close>

definition unmasked :: "ProfanityFilter \<Rightarrow> string \<Rightarrow> nat" where
  "unmasked self s = length (filter (\<lambda>char. [char] \<noteq> censor_char self) s)"

section \<open>Example configurations\<close>

text \<open>
  An English data file with the words of the spec's scenarios, a lemmatiser that returns
  the text, a tokeniser that raises \<^verbatim>\<open>ValueError\<close> on the empty string and, as spaCy does,
  leaves one space that ends the string out of the token's text, and the filter as its
  construction leaves it.
\<close>

definition example_env :: Env where
  "example_env =
     \<lparr>data_dir = (\<lambda>l. if l = ''en'' then Some [''ass'' @ [CHR 0x0A], ''fuck'' @ [CHR 0x0A]] else None),
      make_token = (\<lambda>l w. if w = [] then Inl ValueError
                           else if 1 < length w \<and> last w = CHR 0x20 \<and> last (butlast w) \<noteq> CHR 0x20
                                then Inr (butlast w) else Inr w),
      token_lemma = (\<lambda>l w. w), lower = (\<lambda>w. w)\<rparr>"

definition example_filter :: ProfanityFilter where
  "example_filter =
     \<lparr>analyses = {}, cache_clearing_disabled = False, censor_char = ''*'',
      censor_whole_words = True, custom_profane_word_dictionaries = [],
      extra_profane_word_dictionaries = [], languages = [''en''],
      profane_word_dictionary_files = [''en''], spells = [], censored_words = [],
      words_with_no_profanity_inside = {},
      censor_dictionaries = [(''en'', [''ass'', ''fuck''])],
      profane_word_dictionaries = [(''en'', [''ass'', ''fuck''])]\<rparr>"

text \<open>The same filter with whole-word masking switched off.\<close>

definition partial_filter :: ProfanityFilter where
  "partial_filter = example_filter\<lparr>censor_whole_words := False\<rparr>"

text \<open>
  Two configured languages with a data file each, and a custom dictionary for the first
  of them only.
\<close>

definition bilingual_env :: Env where
  "bilingual_env =
     example_env\<lparr>data_dir := (\<lambda>l. if l = ''en'' then Some [''ass'' @ [CHR 0x0A], ''fuck'' @ [CHR 0x0A]]
                                 else if l = ''ru'' then Some [''durak'' @ [CHR 0x0A]] else None)\<rparr>"

definition bilingual_filter :: ProfanityFilter where
  "bilingual_filter =
     example_filter\<lparr>languages := [''en'', ''ru''],
                     custom_profane_word_dictionaries := [(''en'', [''darn''])]\<rparr>"



section \<open>Strings and substrings\<close>

lemma str_in_refl: "str_in a a"
  by (cases a) auto

lemma length_generate_fully_censored_word:
  "length (censor_char self) = 1 \<Longrightarrow> length (generate_fully_censored_word self word) = length word"
  by (simp add: generate_fully_censored_word_def length_concat sum_list_replicate)

lemma censor_char_single: "length (censor_char self) = 1 \<Longrightarrow> \<exists>c. censor_char self = [c]"
  by (cases "censor_char self") auto

lemma generate_fully_censored_word_all:
  "length (censor_char self) = 1 \<Longrightarrow>
   list_all (\<lambda>char. [char] = censor_char self) (generate_fully_censored_word self word)"
proof -
  assume "length (censor_char self) = 1"
  then obtain c where "censor_char self = [c]" using censor_char_single by blast
  then show ?thesis by (simp add: generate_fully_censored_word_def list_all_iff)
qed

lemma unmasked_zero: "unmasked self s = 0 \<longleftrightarrow> list_all (\<lambda>char. [char] = censor_char self) s"
  by (induction s) (auto simp: unmasked_def)

lemma unmasked_append: "unmasked self (a @ b) = unmasked self a + unmasked self b"
  by (simp add: unmasked_def)

lemma unmasked_le: "unmasked self s \<le> length s"
  by (simp add: unmasked_def)

text \<open>
  Replacing a text by a mask of its length keeps the length of the string, and takes
  unmasked characters away when it changes the string at all.
\<close>

lemma replace_nonempty_length:
  "length new = length old \<Longrightarrow> old \<noteq> [] \<Longrightarrow> k \<le> length s \<Longrightarrow>
     length (replace_nonempty s old new k) = length s - k"
proof (induction s arbitrary: k)
  case Nil
  then show ?case by simp
next
  case (Cons c cs)
  show ?case
  proof (cases "k > 0")
    case True
    with Cons show ?thesis by (cases k) simp_all
  next
    case False
    show ?thesis
    proof (cases "prefix old (c # cs)")
      case True
      then have "length old \<le> Suc (length cs)" using prefix_length_le by fastforce
      moreover from Cons(3) obtain m where "length old = Suc m" by (cases old) auto
      ultimately show ?thesis using Cons True False by simp
    next
      case np: False
      with Cons False show ?thesis by simp
    qed
  qed
qed

lemma replace_nonempty_unmasked:
  assumes new: "unmasked self new = 0" and old: "unmasked self old > 0"
  shows "unmasked self (replace_nonempty s old new k) \<le> unmasked self (drop k s) \<and>
         (replace_nonempty s old new k \<noteq> drop k s \<longrightarrow>
            unmasked self (replace_nonempty s old new k) < unmasked self (drop k s))"
proof (induction s arbitrary: k)
  case Nil
  then show ?case by simp
next
  case (Cons c cs)
  show ?case
  proof (cases "k > 0")
    case True
    then obtain k' where k: "k = Suc k'" by (cases k) auto
    with Cons[of k'] show ?thesis by simp
  next
    case False
    then have k: "k = 0" by simp
    show ?thesis
    proof (cases "prefix old (c # cs)")
      case True
      then obtain zs where zs: "c # cs = old @ zs" by (auto simp: prefix_def)
      from old have "old \<noteq> []" by (auto simp: unmasked_def)
      with zs have d: "drop (length old - 1) cs = zs"
        by (cases old) auto
      have "unmasked self (c # cs) = unmasked self old + unmasked self zs"
        by (simp add: zs unmasked_append)
      moreover have "unmasked self (replace_nonempty cs old new (length old - 1)) \<le> unmasked self zs"
        using Cons[of "length old - 1"] d by simp
      ultimately show ?thesis
        using True k new old by (simp add: unmasked_append)
    next
      case np: False
      with Cons[of 0] k show ?thesis by (simp add: unmasked_def)
    qed
  qed
qed

lemma replace_length:
  "length new = length old \<Longrightarrow> old \<noteq> [] \<Longrightarrow> length (replace s old new) = length s"
  using replace_nonempty_length[of new old 0 s] by (simp add: replace_def)

lemma replace_unmasked:
  "unmasked self new = 0 \<Longrightarrow> unmasked self old > 0 \<Longrightarrow> replace s old new \<noteq> s \<Longrightarrow>
     unmasked self (replace s old new) < unmasked self s"
  using replace_nonempty_unmasked[of self new old s 0] by (auto simp: replace_def unmasked_def)

lemma substrings_indexes_all:
  "(w, s, f) \<in> set (substrings_indexes t r) \<Longrightarrow> set w \<subseteq> set t"
  by (auto simp: substrings_indexes_def dest!: in_set_takeD in_set_dropD split: if_splits)

lemma substrings_indexes_hd:
  "t \<noteq> [] \<Longrightarrow> \<exists>rest. substrings_indexes t True = (t, 0, length t) # rest"
  by (cases t) (simp_all add: substrings_indexes_def upt_rec[of 0])

text \<open>
  The first substring a pass receives is the whole current text, and there is none when
  the text consists of censor characters only (the empty text too).
\<close>

lemma first_candidate:
  "gen_next (drop_substrings (drop_fully_censored_words self (substrings_indexes t True)))
     = (if list_all (\<lambda>char. [char] = censor_char self) t then None
        else Some ((t, 0, length t),
               \<lparr>drop_intervals = {},
                pending = drop_fully_censored_words self (tl (substrings_indexes t True))\<rparr>))"
proof (cases "list_all (\<lambda>char. [char] = censor_char self) t")
  case True
  then have "drop_fully_censored_words self (substrings_indexes t True) = []"
    by (auto simp: drop_fully_censored_words_def filter_empty_conv list_all_iff
             dest!: substrings_indexes_all)
  with True show ?thesis by (simp add: gen_next_def drop_substrings_def)
next
  case False
  then have "t \<noteq> []" by auto
  then obtain rest where "substrings_indexes t True = (t, 0, length t) # rest"
    using substrings_indexes_hd by blast
  with False show ?thesis
    by (simp add: gen_next_def drop_substrings_def drop_fully_censored_words_def)
qed


section \<open>What censoring one candidate changes\<close>

text \<open>
  Looking a word up changes the dictionaries at most by the empty entry of the language
  asked for, in the same way whatever the word; it changes nothing when the language has
  a dictionary, and so nothing when a word is found.
\<close>

lemma is_profane_word_state:
  "\<exists>d. snd (is_profane_word self language w) = self\<lparr>profane_word_dictionaries := d\<rparr>"
proof (cases language)
  case None
  have "snd (is_profane_word self None w) =
          self\<lparr>profane_word_dictionaries := profane_word_dictionaries self\<rparr>"
    by (simp add: is_profane_word_def)
  with None show ?thesis by blast
next
  case (Some l)
  have "snd (is_profane_word self (Some l) w) =
          self\<lparr>profane_word_dictionaries := snd (dd_getitem (profane_word_dictionaries self) l)\<rparr>"
    by (simp add: is_profane_word_def split: prod.splits)
  with Some show ?thesis by blast
qed

lemma is_profane_word_snd:
  "snd (is_profane_word self language a) = snd (is_profane_word self language b)"
  by (simp add: is_profane_word_def split: option.splits prod.splits)

lemma is_profane_word_found:
  "fst (is_profane_word self language w) \<Longrightarrow> snd (is_profane_word self language w) = self"
  by (auto simp: is_profane_word_def dd_getitem_def split: option.splits prod.splits)

lemma is_profane_word_again:
  "fst (is_profane_word (snd (is_profane_word self language a)) language b) =
     fst (is_profane_word self language b)"
  "snd (is_profane_word (snd (is_profane_word self language a)) language b) =
     snd (is_profane_word self language a)"
  by (auto simp: is_profane_word_def dd_getitem_def split: option.splits prod.splits)

lemma first_profane_lemma_find:
  "fst (first_profane_lemma self language ls) =
     List.find (\<lambda>l. fst (is_profane_word self language l)) ls"
proof (induction ls arbitrary: self)
  case Nil
  then show ?case by simp
next
  case (Cons l ls)
  obtain b self1 where p: "is_profane_word self language l = (b, self1)"
    by (cases "is_profane_word self language l")
  then have s1: "self1 = snd (is_profane_word self language l)" by simp
  show ?case
  proof (cases b)
    case True
    with p show ?thesis by simp
  next
    case False
    with p have "first_profane_lemma self language (l # ls) = first_profane_lemma self1 language ls"
      and "\<not> fst (is_profane_word self language l)" by simp_all
    with Cons[of self1] show ?thesis
      by (simp add: s1 is_profane_word_again)
  qed
qed

lemma first_profane_lemma_found:
  "fst (first_profane_lemma self language ls) = Some l \<Longrightarrow>
     snd (first_profane_lemma self language ls) = self"
proof (induction ls arbitrary: self)
  case Nil
  then show ?case by simp
next
  case (Cons l' ls)
  obtain b self1 where p: "is_profane_word self language l' = (b, self1)"
    by (cases "is_profane_word self language l'")
  then have s1: "self1 = snd (is_profane_word self language l')" by simp
  show ?case
  proof (cases b)
    case True
    with p is_profane_word_found[of self language l'] show ?thesis by simp
  next
    case False
    with p Cons.prems have f: "fst (first_profane_lemma self1 language ls) = Some l" by simp
    then have "snd (first_profane_lemma self1 language ls) = self1" by (rule Cons.IH)
    moreover from f have "fst (is_profane_word self1 language l)"
      by (auto simp: first_profane_lemma_find dest: find_Some_iff[THEN iffD1])
    then have "fst (is_profane_word self language l)"
      by (simp add: s1 is_profane_word_again)
    then have "snd (is_profane_word self language l) = self" by (rule is_profane_word_found)
    then have "self1 = self" using is_profane_word_snd[of self language l' l] s1 by simp
    ultimately show ?thesis using p False by simp
  qed
qed

lemma first_profane_lemma_state:
  "\<exists>d. snd (first_profane_lemma self language ls) = self\<lparr>profane_word_dictionaries := d\<rparr>"
proof (induction ls arbitrary: self)
  case Nil
  have "snd (first_profane_lemma self language []) =
          self\<lparr>profane_word_dictionaries := profane_word_dictionaries self\<rparr>" by simp
  then show ?case by blast
next
  case (Cons l ls)
  obtain b self1 where p: "is_profane_word self language l = (b, self1)"
    by (cases "is_profane_word self language l")
  obtain d1 where d1: "self1 = self\<lparr>profane_word_dictionaries := d1\<rparr>"
    using is_profane_word_state[of self language l] p by auto
  obtain d2 where d2: "snd (first_profane_lemma self1 language ls) = self1\<lparr>profane_word_dictionaries := d2\<rparr>"
    using Cons[of self1] by blast
  show ?case
  proof (cases b)
    case True
    with p d1 show ?thesis by auto
  next
    case False
    with p d1 d2 show ?thesis by auto
  qed
qed

lemma censor_word_part_state:
  "\<exists>c d. snd (censor_word_part env self language word) =
     self\<lparr>censored_words := c, profane_word_dictionaries := d\<rparr>"
proof -
  let ?ls = "lemmas_of env self language word"
  obtain r self1 where f: "first_profane_lemma self language ?ls = (r, self1)"
    by (cases "first_profane_lemma self language ?ls")
  obtain d where d: "self1 = self\<lparr>profane_word_dictionaries := d\<rparr>"
    using first_profane_lemma_state[of self language ?ls] f by auto
  let ?c = "censored_words self" and ?d = "profane_word_dictionaries self"
  show ?thesis
  proof (cases "has_no_profanity self ?ls")
    case True
    then have "snd (censor_word_part env self language word) =
        self\<lparr>censored_words := ?c, profane_word_dictionaries := ?d\<rparr>"
      by (simp add: censor_word_part_def Let_def)
    then show ?thesis by blast
  next
    case np: False
    show ?thesis
    proof (cases "get_censored_word self word")
      case (Some w)
      with np have "snd (censor_word_part env self language word) =
          self\<lparr>censored_words := ?c, profane_word_dictionaries := ?d\<rparr>"
        by (simp add: censor_word_part_def Let_def)
      then show ?thesis by blast
    next
      case None
      show ?thesis
      proof (cases r)
        case rn: None
        with np None f d have "snd (censor_word_part env self language word) =
            self\<lparr>censored_words := ?c, profane_word_dictionaries := d\<rparr>"
          by (simp add: censor_word_part_def Let_def)
        then show ?thesis by blast
      next
        case (Some l)
        show ?thesis
        proof (cases "censor_whole_words self")
          case True
          with Some np None f d have "snd (censor_word_part env self language word) =
              self\<lparr>censored_words := AList.update word
                       \<lparr>uncensored = word, censored = generate_fully_censored_word self1 word,
                         original_profane_word = Some l\<rparr> ?c,
                    profane_word_dictionaries := d\<rparr>"
            by (simp add: censor_word_part_def Let_def save_censored_word_def)
          then show ?thesis by blast
        next
          case False
          with Some np None f d have "snd (censor_word_part env self language word) =
              self\<lparr>censored_words := ?c, profane_word_dictionaries := d\<rparr>"
            by (simp add: censor_word_part_def Let_def)
          then show ?thesis by blast
        qed
      qed
    qed
  qed
qed

lemma censor_word_part_analyses [simp]:
  "analyses (snd (censor_word_part env self language word)) = analyses self"
  and censor_word_part_censor_char [simp]:
  "censor_char (snd (censor_word_part env self language word)) = censor_char self"
  and censor_word_part_whole [simp]:
  "censor_whole_words (snd (censor_word_part env self language word)) = censor_whole_words self"
  and censor_word_part_clean [simp]:
  "words_with_no_profanity_inside (snd (censor_word_part env self language word)) = words_with_no_profanity_inside self"
  and censor_word_part_languages [simp]:
  "languages (snd (censor_word_part env self language word)) = languages self"
  and censor_word_part_spells [simp]:
  "spells (snd (censor_word_part env self language word)) = spells self"
  using censor_word_part_state[of env self language word] by auto


text \<open>The five ways through \<^verbatim>\<open>_censor_word_part\<close>.\<close>

lemma censor_word_part_cases:
  obtains
    (clean) "has_no_profanity self (lemmas_of env self language word)"
      "censor_word_part env self language word =
         (Inr (\<lparr>uncensored = word, censored = word, original_profane_word = None\<rparr>, True), self)"
  | (cached) w where "get_censored_word self word = Some w"
      "censor_word_part env self language word = (Inr (w, False), self)"
  | (found) l where "censor_whole_words self"
      "censor_word_part env self language word =
         (Inr (\<lparr>uncensored = word, censored = generate_fully_censored_word self word,
                 original_profane_word = Some l\<rparr>, False),
          save_censored_word self
            \<lparr>uncensored = word, censored = generate_fully_censored_word self word,
             original_profane_word = Some l\<rparr>)"
  | (raises) "\<not> censor_whole_words self"
      "censor_word_part env self language word = (Inl UnboundLocalError, self)"
  | (none) d where
      "censor_word_part env self language word =
         (Inr (\<lparr>uncensored = word, censored = word, original_profane_word = None\<rparr>, False),
          self\<lparr>profane_word_dictionaries := d\<rparr>)"
proof -
  let ?ls = "lemmas_of env self language word"
  obtain r self1 where f: "first_profane_lemma self language ?ls = (r, self1)"
    by (cases "first_profane_lemma self language ?ls")
  obtain d where d: "self1 = self\<lparr>profane_word_dictionaries := d\<rparr>"
    using first_profane_lemma_state[of self language ?ls] f by auto
  show ?thesis
  proof (cases "has_no_profanity self ?ls")
    case True
    then show ?thesis by (intro clean) (simp_all add: censor_word_part_def Let_def)
  next
    case np: False
    show ?thesis
    proof (cases "get_censored_word self word")
      case (Some w)
      with np show ?thesis by (intro cached[of w]) (simp_all add: censor_word_part_def Let_def)
    next
      case None
      show ?thesis
      proof (cases r)
        case rn: None
        with np None f d show ?thesis
          by (intro none[of d]) (simp add: censor_word_part_def Let_def)
      next
        case (Some l)
        with f have "self1 = self"
          using first_profane_lemma_found[of self language ?ls l] by simp
        with Some np None f show ?thesis
          by (cases "censor_whole_words self")
             (auto intro: found[of l] raises simp: censor_word_part_def Let_def)
      qed
    qed
  qed
qed

lemma censor_word_part_raises:
  "censor_word_part env self language word = (Inl e, self1) \<Longrightarrow>
     e = UnboundLocalError \<and> \<not> censor_whole_words self \<and> self1 = self"
  by (cases rule: censor_word_part_cases[of self env language word]) auto

lemma cache_ok_lookup:
  "cache_ok self \<Longrightarrow> get_censored_word self k = Some w \<Longrightarrow>
     uncensored w = k \<and> censored w = generate_fully_censored_word self k"
  by (auto simp: cache_ok_def get_censored_word_def list_all_iff dest!: map_of_SomeD)

lemma set_update_subset: "set (AList.update k v al) \<subseteq> insert (k, v) (set al)"
  by (induction al) auto

lemma cache_ok_save:
  "cache_ok self \<Longrightarrow> censored w = generate_fully_censored_word self (uncensored w) \<Longrightarrow>
     cache_ok (save_censored_word self w)"
  using set_update_subset[of "uncensored w" w "censored_words self"]
  by (auto simp: cache_ok_def save_censored_word_def list_all_iff generate_fully_censored_word_def)

lemma cache_ok_dicts [simp]:
  "cache_ok (self\<lparr>profane_word_dictionaries := d\<rparr>) = cache_ok self"
  by (simp add: cache_ok_def generate_fully_censored_word_def)

lemma censor_word_part_cache_ok:
  "cache_ok self \<Longrightarrow> cache_ok (snd (censor_word_part env self language word))"
  by (cases rule: censor_word_part_cases[of self env language word]) (simp_all add: cache_ok_save)

lemma censor_word_part_censored:
  "cache_ok self \<Longrightarrow> censor_word_part env self language word = (Inr (w, b), self1) \<Longrightarrow>
     uncensored w = word \<and>
     (censored w = word \<or>
      censored w = generate_fully_censored_word self word \<and> (censor_whole_words self \<or> self1 = self))"
  by (cases rule: censor_word_part_cases[of self env language word])
     (auto dest: cache_ok_lookup)

lemma censor_word_part_partial_cache:
  "\<not> censor_whole_words self \<Longrightarrow>
     censored_words (snd (censor_word_part env self language word)) = censored_words self"
  by (cases rule: censor_word_part_cases[of self env language word]) simp_all

lemma censor_word_part_no_cache:
  "\<not> censor_whole_words self \<Longrightarrow> censored_words self = [] \<Longrightarrow>
     censor_word_part env self language word = (Inr (w, b), self1) \<Longrightarrow> w = \<lparr>uncensored = word, censored = word, original_profane_word = None\<rparr>"
  by (cases rule: censor_word_part_cases[of self env language word])
     (auto simp: get_censored_word_def)


section \<open>The loop of a configured filter\<close>

lemma generate_fully_censored_word_cong:
  "censor_char a = censor_char b \<Longrightarrow>
     generate_fully_censored_word a w = generate_fully_censored_word b w"
  by (simp add: generate_fully_censored_word_def)

lemma unmasked_cong: "censor_char a = censor_char b \<Longrightarrow> unmasked a w = unmasked b w"
  by (simp add: unmasked_def)

lemma generate_fully_censored_word_masked:
  "length (censor_char self) = 1 \<Longrightarrow> list_all (\<lambda>char. [char] = censor_char self) w \<Longrightarrow>
     generate_fully_censored_word self w = w"
proof -
  assume "length (censor_char self) = 1"
  then obtain c where c: "censor_char self = [c]" using censor_char_single by blast
  assume "list_all (\<lambda>char. [char] = censor_char self) w"
  with c show ?thesis
    by (induction w) (simp_all add: generate_fully_censored_word_def)
qed

text \<open>
  With deep analysis off the inner loop ends after the first candidate.
\<close>

lemma censor_word_scan_no_deep:
  assumes d: "DEEP \<notin> analyses self"
  shows "censor_word_scan env self language word prev cur np (part, start, finish) g =
     (case make_spacy_token env language part of
        Inl e \<Rightarrow> (Inl e, self)
      | Inr p \<Rightarrow>
     (case censor_word_part env self language p of
        (Inl e, self1) \<Rightarrow> (Inl e, self1)
      | (Inr (ccp, npi), self1) \<Rightarrow>
          (Inr (if censored ccp \<noteq> p
                then \<lparr>uncensored = word,
                      censored = (if censor_whole_words self
                                  then generate_fully_censored_word self word
                                  else replace (censored prev) p (censored ccp)),
                      original_profane_word = original_profane_word ccp\<rparr>
                else cur), self1)))"
proof (cases "make_spacy_token env language part")
  case (Inl e)
  then show ?thesis by (subst censor_word_scan.simps) simp
next
  case (Inr p)
  obtain r self1 where c: "censor_word_part env self language p = (r, self1)"
    by (cases "censor_word_part env self language p")
  have "analyses self1 = analyses self" and w: "censor_whole_words self1 = censor_whole_words self"
    and "censor_char self1 = censor_char self"
    using censor_word_part_analyses[of env self language p]
      censor_word_part_whole[of env self language p]
      censor_word_part_censor_char[of env self language p] c by simp_all
  with d have d1: "DEEP \<notin> analyses self1"
    and g: "generate_fully_censored_word self1 word = generate_fully_censored_word self word"
    by (simp_all add: generate_fully_censored_word_def)
  show ?thesis
    by (subst censor_word_scan.simps) (simp add: Inr c d1 w g Let_def split: sum.splits prod.splits)
qed

text \<open>One pass of the outer loop, and its end when a pass changed nothing.\<close>

lemma censor_word_loop_pass:
  assumes "DEEP \<notin> analyses self" and "Some cur \<noteq> prevopt"
  shows "censor_word_loop env self language word prevopt cur k =
     (if list_all (\<lambda>char. [char] = censor_char self) (censored cur) then Some (Inr cur, self, Suc k)
      else (case make_spacy_token env language (censored cur) of
              Inl e \<Rightarrow> Some (Inl e, self, Suc k)
            | Inr p \<Rightarrow>
                (case censor_word_part env self language p of
                   (Inl e, self1) \<Rightarrow> Some (Inl e, self1, Suc k)
                 | (Inr (ccp, npi), self1) \<Rightarrow>
                     censor_word_loop env self1 language word (Some cur)
                       (if censored ccp \<noteq> p
                        then \<lparr>uncensored = word,
                              censored = (if censor_whole_words self
                                          then generate_fully_censored_word self word
                                          else replace (censored cur) p (censored ccp)),
                              original_profane_word = original_profane_word ccp\<rparr>
                        else cur) (Suc k))))"
  using assms
  by (subst censor_word_loop.simps)
     (simp add: first_candidate censor_word_scan_no_deep split: sum.splits prod.splits)

lemma censor_word_loop_stop:
  "censor_word_loop env self language word (Some cur) cur k = Some (Inr cur, self, k)"
  by (subst censor_word_loop.simps) simp


text \<open>
  The loop ends. A pass that goes on to another one has either masked some character
  that was not, or only changed the profane word recorded; in the second case the next
  pass repeats it and is the last.
\<close>

lemma censor_word_loop_total:
  "length (censor_char self) = 1 \<Longrightarrow> DEEP \<notin> analyses self \<Longrightarrow> cache_ok self \<Longrightarrow>
   Some cur \<noteq> prevopt \<Longrightarrow> length (censored cur) = length word \<Longrightarrow>
     \<exists>r self' n. censor_word_loop env self language word prevopt cur k = Some (r, self', n) \<and>
       n \<le> k + unmasked self (censored cur) + 1 \<and>
       (case r of
          Inr w \<Rightarrow> length (censored w) = length word \<and> (w = cur \<or> uncensored w = word) \<and>
                   (censor_whole_words self \<longrightarrow>
                      w = cur \<or> censored w = generate_fully_censored_word self word)
        | Inl e \<Rightarrow> e = UnboundLocalError \<and> \<not> censor_whole_words self \<or>
                   (\<exists>s. make_spacy_token env language s = Inl e))"
proof (induction "unmasked self (censored cur)" arbitrary: self cur prevopt k rule: less_induct)
  case less
  note len = less.prems(1) and nd = less.prems(2) and ok = less.prems(3)
    and ne = less.prems(4) and lenc = less.prems(5)
  let ?c = "censored cur"
  note pass = censor_word_loop_pass[OF nd ne, of env language word k]
  show ?case
  proof (cases "list_all (\<lambda>char. [char] = censor_char self) ?c")
    case True
    with pass have "censor_word_loop env self language word prevopt cur k = Some (Inr cur, self, Suc k)"
      by simp
    with lenc show ?thesis by simp
  next
    case nall: False
    then have pos: "0 < unmasked self ?c" using unmasked_zero[of self ?c] by simp
    show ?thesis
    proof (cases "make_spacy_token env language ?c")
      case (Inl e)
      with pass nall have "censor_word_loop env self language word prevopt cur k = Some (Inl e, self, Suc k)"
        by simp
      with Inl show ?thesis by auto
    next
      case (Inr p)
      obtain x self1 where cwp: "censor_word_part env self language p = (x, self1)"
        by (cases "censor_word_part env self language p")
      have a1: "analyses self1 = analyses self" and w1: "censor_whole_words self1 = censor_whole_words self"
        and c1: "censor_char self1 = censor_char self"
        using censor_word_part_analyses[of env self language p]
          censor_word_part_whole[of env self language p]
          censor_word_part_censor_char[of env self language p] cwp by simp_all
      have ok1: "cache_ok self1"
        using censor_word_part_cache_ok[OF ok, of env language p] cwp by simp
      show ?thesis
      proof (cases x)
        case (Inl e)
        with pass nall Inr cwp
        have "censor_word_loop env self language word prevopt cur k = Some (Inl e, self1, Suc k)"
          by simp
        moreover from Inl cwp have "e = UnboundLocalError \<and> \<not> censor_whole_words self"
          using censor_word_part_raises[of env self language p e self1] by simp
        ultimately show ?thesis by simp
      next
        case xr: (Inr wb)
        obtain ccp npi where wb: "wb = (ccp, npi)" by (cases wb)
        define cur1 where "cur1 =
           (if censored ccp \<noteq> p
            then \<lparr>uncensored = word,
                  censored = (if censor_whole_words self
                              then generate_fully_censored_word self word
                              else replace ?c p (censored ccp)),
                  original_profane_word = original_profane_word ccp\<rparr>
            else cur)"
        have step: "censor_word_loop env self language word prevopt cur k =
                    censor_word_loop env self1 language word (Some cur) cur1 (Suc k)"
          using pass nall Inr cwp xr wb by (simp add: cur1_def)
        show ?thesis
        proof (cases "cur1 = cur")
          case True
          with step have "censor_word_loop env self language word prevopt cur k =
                          Some (Inr cur, self1, Suc k)"
            by (simp add: censor_word_loop_stop)
          with lenc show ?thesis by simp
        next
          case chg: False
          then have ch: "censored ccp \<noteq> p" by (auto simp: cur1_def)
          have full: "censored ccp = generate_fully_censored_word self p"
            and same: "censor_whole_words self \<or> self1 = self"
            using censor_word_part_censored[OF ok, of env language p ccp npi self1] cwp xr wb ch
            by auto
          have m0: "unmasked self (censored ccp) = 0"
            using generate_fully_censored_word_all[OF len, of p] full
            by (simp add: unmasked_zero)
          have lp: "length (censored ccp) = length p"
            using length_generate_fully_censored_word[OF len, of p] full by simp
          have pun: "0 < unmasked self p"
          proof (rule ccontr)
            assume "\<not> 0 < unmasked self p"
            then have "list_all (\<lambda>char. [char] = censor_char self) p"
              using unmasked_zero[of self p] by simp
            with ch full show False
              using generate_fully_censored_word_masked[OF len, of p] by simp
          qed
          then have pne: "p \<noteq> []" by (auto simp: unmasked_def)
          have cur1: "cur1 = \<lparr>uncensored = word,
                  censored = (if censor_whole_words self
                              then generate_fully_censored_word self word
                              else replace ?c p (censored ccp)),
                  original_profane_word = original_profane_word ccp\<rparr>"
            using ch by (simp add: cur1_def)
          have l1: "length (censored cur1) = length word"
            using length_generate_fully_censored_word[OF len, of word]
              replace_length[OF lp pne, of ?c] lenc
            by (simp add: cur1)
          have u1: "uncensored cur1 = word" by (simp add: cur1)
          have wc: "censor_whole_words self \<longrightarrow> censored cur1 = generate_fully_censored_word self word"
            by (simp add: cur1)
          have len1: "length (censor_char self1) = 1" using len c1 by simp
          have nd1: "DEEP \<notin> analyses self1" using nd a1 by simp
          have ne1: "Some cur1 \<noteq> Some cur" using chg by simp
          show ?thesis
          proof (cases "censored cur1 = ?c")
            case eq: True
            have nw: "\<not> censor_whole_words self"
            proof
              assume "censor_whole_words self"
              with eq cur1 have "?c = generate_fully_censored_word self word" by simp
              with nall show False using generate_fully_censored_word_all[OF len, of word] by simp
            qed
            with same have s1: "self1 = self" by simp
            have r: "replace ?c p (censored ccp) = ?c" using eq nw by (simp add: cur1)
            have "censor_word_loop env self language word (Some cur) cur1 (Suc k) =
                  censor_word_loop env self language word (Some cur1) cur1 (Suc (Suc k))"
              using censor_word_loop_pass[OF nd ne1, of env language word "Suc k"] nall Inr cwp xr wb
                eq ch nw r s1
              by (simp add: cur1)
            with step s1 have "censor_word_loop env self language word prevopt cur k =
                  Some (Inr cur1, self, Suc (Suc k))"
              by (simp add: censor_word_loop_stop)
            with l1 u1 nw pos show ?thesis by simp
          next
            case diff: False
            have dec: "unmasked self1 (censored cur1) < unmasked self ?c"
            proof (cases "censor_whole_words self")
              case True
              then have "censored cur1 = generate_fully_censored_word self word" by (simp add: cur1)
              then have "unmasked self (censored cur1) = 0"
                using generate_fully_censored_word_all[OF len, of word] by (simp add: unmasked_zero)
              with pos show ?thesis by (simp add: unmasked_cong[OF c1])
            next
              case False
              then have "censored cur1 = replace ?c p (censored ccp)" by (simp add: cur1)
              with diff replace_unmasked[OF m0 pun, of ?c] show ?thesis
                by (simp add: unmasked_cong[OF c1])
            qed
            obtain r self' n where
              res: "censor_word_loop env self1 language word (Some cur) cur1 (Suc k) = Some (r, self', n)"
              and n: "n \<le> Suc k + unmasked self1 (censored cur1) + 1"
              and rp: "(case r of
                  Inr w \<Rightarrow> length (censored w) = length word \<and> (w = cur1 \<or> uncensored w = word) \<and>
                           (censor_whole_words self1 \<longrightarrow>
                              w = cur1 \<or> censored w = generate_fully_censored_word self1 word)
                | Inl e \<Rightarrow> e = UnboundLocalError \<and> \<not> censor_whole_words self1 \<or>
                           (\<exists>s. make_spacy_token env language s = Inl e))"
              using less.hyps[OF dec len1 nd1 ok1 ne1 l1, of "Suc k"] by blast
            have g: "generate_fully_censored_word self1 word = generate_fully_censored_word self word"
              using c1 by (rule generate_fully_censored_word_cong)
            have "case r of
                  Inr w \<Rightarrow> length (censored w) = length word \<and> (w = cur \<or> uncensored w = word) \<and>
                           (censor_whole_words self \<longrightarrow>
                              w = cur \<or> censored w = generate_fully_censored_word self word)
                | Inl e \<Rightarrow> e = UnboundLocalError \<and> \<not> censor_whole_words self \<or>
                           (\<exists>s. make_spacy_token env language s = Inl e)"
              using rp u1 w1 g wc by (cases r) auto
            moreover from n dec have "n \<le> k + unmasked self ?c + 1" by simp
            ultimately show ?thesis using step res by simp
          qed
        qed
      qed
    qed
  qed
qed


text \<open>
  What the loop leaves as it was, whenever it ends: the configuration and the known-clean
  set, the cache of censored words too when whole-word masking is off, and the invariant
  of the cache.
\<close>

lemma censor_word_scan_state:
  assumes "DEEP \<notin> analyses self"
  shows "snd (censor_word_scan env self language word prev cur np sub g) = self \<or>
         (\<exists>p. snd (censor_word_scan env self language word prev cur np sub g) =
                snd (censor_word_part env self language p))"
proof -
  obtain part start finish where sub: "sub = (part, start, finish)" by (cases sub)
  show ?thesis
  proof (cases "make_spacy_token env language part")
    case (Inl e)
    then show ?thesis unfolding sub censor_word_scan_no_deep[OF assms] by simp
  next
    case (Inr p)
    obtain r self1 where c: "censor_word_part env self language p = (r, self1)"
      by (cases "censor_word_part env self language p")
    have "snd (censor_word_scan env self language word prev cur np sub g) =
            snd (censor_word_part env self language p)"
      by (simp add: sub censor_word_scan_no_deep[OF assms] Inr c split: sum.splits prod.splits)
    then show ?thesis by blast
  qed
qed

lemma censor_word_scan_frame:
  assumes "DEEP \<notin> analyses self"
  shows "analyses (snd (censor_word_scan env self language word prev cur np sub g)) = analyses self"
    and "censor_char (snd (censor_word_scan env self language word prev cur np sub g)) = censor_char self"
    and "censor_whole_words (snd (censor_word_scan env self language word prev cur np sub g)) =
           censor_whole_words self"
    and "words_with_no_profanity_inside (snd (censor_word_scan env self language word prev cur np sub g))
           = words_with_no_profanity_inside self"
    and "cache_ok self \<longrightarrow> cache_ok (snd (censor_word_scan env self language word prev cur np sub g))"
    and "\<not> censor_whole_words self \<longrightarrow>
           censored_words (snd (censor_word_scan env self language word prev cur np sub g)) =
           censored_words self"
  using censor_word_scan_state[OF assms, of env language word prev cur np sub g]
    censor_word_part_cache_ok[of self env language] censor_word_part_partial_cache[of self env language]
  by auto

lemma censor_word_loop_frame:
  assumes "censor_word_loop env self language word prev cur k = Some y"
  shows "DEEP \<notin> analyses self \<longrightarrow>
       analyses (fst (snd y)) = analyses self \<and>
       censor_char (fst (snd y)) = censor_char self \<and>
       censor_whole_words (fst (snd y)) = censor_whole_words self \<and>
       words_with_no_profanity_inside (fst (snd y)) = words_with_no_profanity_inside self \<and>
       (cache_ok self \<longrightarrow> cache_ok (fst (snd y))) \<and>
       (\<not> censor_whole_words self \<longrightarrow> censored_words (fst (snd y)) = censored_words self)"
  using assms
proof (induction rule: censor_word_loop.raw_induct[rotated 1, consumes 1, case_names step])
  case (step loop env self language word prev cur k y)
  show ?case
  proof
    assume nd: "DEEP \<notin> analyses self"
    show "analyses (fst (snd y)) = analyses self \<and>
       censor_char (fst (snd y)) = censor_char self \<and>
       censor_whole_words (fst (snd y)) = censor_whole_words self \<and>
       words_with_no_profanity_inside (fst (snd y)) = words_with_no_profanity_inside self \<and>
       (cache_ok self \<longrightarrow> cache_ok (fst (snd y))) \<and>
       (\<not> censor_whole_words self \<longrightarrow> censored_words (fst (snd y)) = censored_words self)"
    proof (cases "Some cur = prev")
      case True
      with step(2) show ?thesis by auto
    next
      case False
      show ?thesis
      proof (cases "gen_next (drop_substrings (drop_fully_censored_words self
                       (substrings_indexes (censored cur) True)))")
        case None
        with False step(2) show ?thesis by auto
      next
        case (Some sg)
        obtain sub g where sg: "sg = (sub, g)" by (cases sg)
        obtain r self1 where sc: "censor_word_scan env self language word cur cur (None, None) sub g = (r, self1)"
          by (cases "censor_word_scan env self language word cur cur (None, None) sub g")
        note fr = censor_word_scan_frame[OF nd, of env language word cur cur "(None, None)" sub g]
        have a: "analyses self1 = analyses self"
          and c: "censor_char self1 = censor_char self"
          and w: "censor_whole_words self1 = censor_whole_words self"
          and n: "words_with_no_profanity_inside self1 = words_with_no_profanity_inside self"
          and o: "cache_ok self \<longrightarrow> cache_ok self1"
          and h: "\<not> censor_whole_words self \<longrightarrow> censored_words self1 = censored_words self"
          using fr sc by simp_all
        show ?thesis
        proof (cases r)
          case (Inl e)
          with False Some sg sc step(2) have "fst (snd y) = self1" by auto
          with a c w n o h show ?thesis by simp
        next
          case (Inr cw)
          with False Some sg sc step(2) have "loop env self1 language word (Some cur) cw (Suc k) = Some y"
            by simp
          from step(1)[OF this] a c w n o h nd show ?thesis by simp
        qed
      qed
    qed
  qed
qed


section \<open>Censoring a token\<close>

lemma censor_word_token_total:
  assumes wf: "well_formed self"
  shows "\<exists>r self' n. censor_word_token env self language t = Some (r, self', n) \<and>
       n \<le> length t + 1 \<and>
       (case r of
          Inr w \<Rightarrow> uncensored w = t \<and> length (censored w) = length t \<and>
                   (censor_whole_words self \<longrightarrow>
                      censored w = t \<or> censored w = generate_fully_censored_word self t)
        | Inl e \<Rightarrow> e = UnboundLocalError \<and> \<not> censor_whole_words self \<or>
                   (\<exists>s. make_spacy_token env language s = Inl e))"
proof -
  from wf have len: "length (censor_char self) = 1" and nd: "DEEP \<notin> analyses self"
    and ok: "cache_ok self" by (simp_all add: well_formed_def)
  let ?cur = "\<lparr>uncensored = t, censored = t, original_profane_word = None\<rparr>"
  have ne: "Some ?cur \<noteq> None" by simp
  have lc: "length (censored ?cur) = length t" by simp
  obtain r self1 n where
    res: "censor_word_loop env self language t None ?cur 0 = Some (r, self1, n)"
    and n: "n \<le> 0 + unmasked self (censored ?cur) + 1"
    and rp: "(case r of
          Inr w \<Rightarrow> length (censored w) = length t \<and> (w = ?cur \<or> uncensored w = t) \<and>
                   (censor_whole_words self \<longrightarrow>
                      w = ?cur \<or> censored w = generate_fully_censored_word self t)
        | Inl e \<Rightarrow> e = UnboundLocalError \<and> \<not> censor_whole_words self \<or>
                   (\<exists>s. make_spacy_token env language s = Inl e))"
    using censor_word_loop_total[OF len nd ok ne lc, of env language 0] by blast
  from n have n': "n \<le> length t + 1" using unmasked_le[of self t] by simp
  show ?thesis
  proof (cases r)
    case (Inl e)
    with res have "censor_word_token env self language t = Some (Inl e, self1, n)"
      by (simp add: censor_word_token_def)
    with Inl rp n' show ?thesis by simp
  next
    case (Inr w)
    with res obtain self' where "censor_word_token env self language t = Some (Inr w, self', n)"
      by (simp add: censor_word_token_def)
    moreover from Inr rp have a: "length (censored w) = length t"
      and b: "w = ?cur \<or> uncensored w = t"
      and c: "censor_whole_words self \<longrightarrow> w = ?cur \<or> censored w = generate_fully_censored_word self t"
      by simp_all
    have e: "w = ?cur \<Longrightarrow> uncensored w = t \<and> censored w = t"
    proof -
      assume "w = ?cur"
      then have "uncensored w = uncensored ?cur" "censored w = censored ?cur" by (rule arg_cong)+
      then show ?thesis by simp
    qed
    from b e have "uncensored w = t" by blast
    moreover from c e
    have "censor_whole_words self \<longrightarrow> censored w = t \<or> censored w = generate_fully_censored_word self t"
      by blast
    ultimately show ?thesis using n' a by simp
  qed
qed

lemma censor_word_token_frame:
  assumes r: "censor_word_token env self language t = Some (r, self', n)"
    and nd: "DEEP \<notin> analyses self"
  shows "analyses self' = analyses self" and "censor_char self' = censor_char self"
    and "censor_whole_words self' = censor_whole_words self"
    and "words_with_no_profanity_inside self' = words_with_no_profanity_inside self"
proof -
  let ?cur = "\<lparr>uncensored = t, censored = t, original_profane_word = None\<rparr>"
  from r obtain r0 self1 where
    l: "censor_word_loop env self language t None ?cur 0 = Some (r0, self1, n)"
    by (auto simp: censor_word_token_def split: option.splits sum.splits prod.splits)
  have f: "analyses self1 = analyses self \<and> censor_char self1 = censor_char self \<and>
        censor_whole_words self1 = censor_whole_words self \<and>
        words_with_no_profanity_inside self1 = words_with_no_profanity_inside self"
    using censor_word_loop_frame[OF l] nd by simp
  with nd have nd1: "DEEP \<notin> analyses self1" by simp
  have s: "self' = self1 \<or> (\<exists>w. self' = save_censored_word self1 w)"
    using r l nd1 by (auto simp: censor_word_token_def split: sum.splits if_splits)
  from s f show "analyses self' = analyses self" by (auto simp: save_censored_word_def)
  from s f show "censor_char self' = censor_char self" by (auto simp: save_censored_word_def)
  from s f show "censor_whole_words self' = censor_whole_words self"
    by (auto simp: save_censored_word_def)
  from s f show "words_with_no_profanity_inside self' = words_with_no_profanity_inside self"
    by (auto simp: save_censored_word_def)
qed

text \<open>
  The two ends the examples take: a first pass that changes nothing, and whole-word
  masking at a match.
\<close>

lemma censor_word_token_closed:
  assumes nd: "DEEP \<notin> analyses self" and len: "length (censor_char self) = 1"
    and nall: "\<not> list_all (\<lambda>char. [char] = censor_char self) word"
    and mk: "make_spacy_token env language word = Inr p"
    and cwp: "censor_word_part env self language p = (Inr (ccp, npi), self1)"
  shows "censored ccp = p \<Longrightarrow>
           censor_word_token env self language word =
             Some (Inr \<lparr>uncensored = word, censored = word, original_profane_word = None\<rparr>, self1, 1)"
    and "censored ccp \<noteq> p \<Longrightarrow> censor_whole_words self \<Longrightarrow>
           censor_word_token env self language word =
             Some (Inr \<lparr>uncensored = word, censored = generate_fully_censored_word self word,
                         original_profane_word = original_profane_word ccp\<rparr>,
                   save_censored_word self1
                     \<lparr>uncensored = word, censored = generate_fully_censored_word self word,
                       original_profane_word = original_profane_word ccp\<rparr>, 2)"
proof -
  let ?cur = "\<lparr>uncensored = word, censored = word, original_profane_word = None\<rparr>"
  have ne: "Some ?cur \<noteq> None" by simp
  note pass = censor_word_loop_pass[OF nd ne, of env language word 0]
  have a1: "analyses self1 = analyses self" and c1: "censor_char self1 = censor_char self"
    using censor_word_part_analyses[of env self language p]
      censor_word_part_censor_char[of env self language p] cwp by simp_all
  with nd have nd1: "DEEP \<notin> analyses self1" by simp
  {
    assume "censored ccp = p"
    with pass nall mk cwp
    have "censor_word_loop env self language word None ?cur 0 = Some (Inr ?cur, self1, 1)"
      by (simp add: censor_word_loop_stop)
    with nd1 show "censor_word_token env self language word = Some (Inr ?cur, self1, 1)"
      by (simp add: censor_word_token_def)
  }
  {
    assume ch: "censored ccp \<noteq> p" and w: "censor_whole_words self"
    let ?new = "\<lparr>uncensored = word, censored = generate_fully_censored_word self word,
                  original_profane_word = original_profane_word ccp\<rparr>"
    have all: "list_all (\<lambda>char. [char] = censor_char self1) (censored ?new)"
      using generate_fully_censored_word_all[OF len, of word] c1 by simp
    have neq: "generate_fully_censored_word self word \<noteq> word"
      using generate_fully_censored_word_all[OF len, of word] nall by auto
    then have ne1: "Some ?new \<noteq> Some ?cur" by simp
    have "censor_word_loop env self language word None ?cur 0 =
          censor_word_loop env self1 language word (Some ?cur) ?new 1"
      using pass nall mk cwp ch w by simp
    also have "\<dots> = Some (Inr ?new, self1, 2)"
      using censor_word_loop_pass[OF nd1 ne1, of env language word 1] all by simp
    finally show "censor_word_token env self language word =
        Some (Inr ?new, save_censored_word self1 ?new, 2)"
      using neq by (simp add: censor_word_token_def)
  }
qed

text \<open>
  A token that consists of censor characters only is returned as it is after one pass:
  every substring of it is filtered out before it is looked at. Scenario 5 of the spec.
\<close>

lemma censor_word_token_masked:
  assumes nd: "DEEP \<notin> analyses self"
    and m: "list_all (\<lambda>char. [char] = censor_char self) t"
  shows "censor_word_token env self language t =
           Some (Inr \<lparr>uncensored = t, censored = t, original_profane_word = None\<rparr>, self, 1)"
proof -
  let ?cur = "\<lparr>uncensored = t, censored = t, original_profane_word = None\<rparr>"
  have ne: "Some ?cur \<noteq> None" by simp
  have "censor_word_loop env self language t None ?cur 0 = Some (Inr ?cur, self, 1)"
    using censor_word_loop_pass[OF nd ne, of env language t 0] m by simp
  with nd show ?thesis by (simp add: censor_word_token_def)
qed

text \<open>
  With whole-word masking off and an empty cache the first pass changes nothing, so
  nothing is stored: there the cache stays empty.
\<close>

lemma censor_word_loop_no_cache:
  assumes nd: "DEEP \<notin> analyses self" and nw: "\<not> censor_whole_words self"
    and em: "censored_words self = []" and ne: "Some cur \<noteq> prevopt"
    and r: "censor_word_loop env self language word prevopt cur k = Some (Inr w, self', n)"
  shows "w = cur"
proof (cases "list_all (\<lambda>char. [char] = censor_char self) (censored cur)")
  case True
  with censor_word_loop_pass[OF nd ne, of env language word k] r show ?thesis by simp
next
  case nall: False
  show ?thesis
  proof (cases "make_spacy_token env language (censored cur)")
    case (Inl e)
    with censor_word_loop_pass[OF nd ne, of env language word k] r nall show ?thesis by simp
  next
    case (Inr p)
    obtain x self1 where cwp: "censor_word_part env self language p = (x, self1)"
      by (cases "censor_word_part env self language p")
    show ?thesis
    proof (cases x)
      case (Inl e)
      with censor_word_loop_pass[OF nd ne, of env language word k] r nall Inr cwp
      show ?thesis by simp
    next
      case xr: (Inr wb)
      obtain ccp npi where wb: "wb = (ccp, npi)" by (cases wb)
      have "ccp = \<lparr>uncensored = p, censored = p, original_profane_word = None\<rparr>"
        using censor_word_part_no_cache[OF nw em, of env language p ccp npi self1] cwp xr wb by simp
      then have "censored ccp = p" by simp
      with censor_word_loop_pass[OF nd ne, of env language word k] r nall Inr cwp xr wb
      show ?thesis by (simp add: censor_word_loop_stop)
    qed
  qed
qed

text \<open>
  The invariant is kept by \<^verbatim>\<open>_censor_word\<close>, whatever it returns, on the filters that
  store nothing while whole-word masking is off.
\<close>

lemma well_formed_save:
  "well_formed self \<Longrightarrow> censored w = generate_fully_censored_word self (uncensored w) \<Longrightarrow>
     well_formed (save_censored_word self w)"
  using cache_ok_save[of self w] by (simp add: well_formed_def save_censored_word_def)

lemma well_formed_censor_word:
  assumes wf: "well_formed self" and st: "censor_whole_words self \<or> censored_words self = []"
    and r: "censor_word_token env self language word = Some (r, self', n)"
  shows "well_formed self' \<and> (censor_whole_words self' \<or> censored_words self' = [])"
proof -
  from wf have len: "length (censor_char self) = 1" and nd: "DEEP \<notin> analyses self"
    and ok: "cache_ok self" by (simp_all add: well_formed_def)
  let ?cur = "\<lparr>uncensored = word, censored = word, original_profane_word = None\<rparr>"
  from r obtain r0 self1 where
    l: "censor_word_loop env self language word None ?cur 0 = Some (r0, self1, n)"
    by (auto simp: censor_word_token_def split: option.splits sum.splits prod.splits)
  have f: "analyses self1 = analyses self" "censor_char self1 = censor_char self"
        "censor_whole_words self1 = censor_whole_words self" "cache_ok self1"
        "\<not> censor_whole_words self \<longrightarrow> censored_words self1 = censored_words self"
    using censor_word_loop_frame[OF l] nd ok by simp_all
  with len nd have wf1: "well_formed self1" and nd1: "DEEP \<notin> analyses self1"
    by (simp_all add: well_formed_def)
  have st1: "censor_whole_words self1 \<or> censored_words self1 = []" using st f by auto
  show ?thesis
  proof (cases r0)
    case (Inl e)
    with r l have "self' = self1" by (simp add: censor_word_token_def)
    with wf1 st1 show ?thesis by simp
  next
    case (Inr w)
    show ?thesis
    proof (cases "censored w = word")
      case True
      with Inr r l nd1 have "self' = self1" by (simp add: censor_word_token_def)
      with wf1 st1 show ?thesis by simp
    next
      case False
      with Inr r l have s: "self' = save_censored_word self1 w" by (simp add: censor_word_token_def)
      have whole: "censor_whole_words self"
      proof (rule ccontr)
        assume nw: "\<not> censor_whole_words self"
        with st have "censored_words self = []" by simp
        from censor_word_loop_no_cache[OF nd nw this _ l[unfolded Inr]] have "w = ?cur" by simp
        with False show False by simp
      qed
      obtain r' self'' n' where
        t: "censor_word_token env self language word = Some (r', self'', n')"
        and rp: "(case r' of
          Inr w \<Rightarrow> uncensored w = word \<and> length (censored w) = length word \<and>
                   (censor_whole_words self \<longrightarrow>
                      censored w = word \<or> censored w = generate_fully_censored_word self word)
        | Inl e \<Rightarrow> e = UnboundLocalError \<and> \<not> censor_whole_words self \<or>
                   (\<exists>s. make_spacy_token env language s = Inl e))"
        using censor_word_token_total[OF wf, of env language word] by blast
      from t r have "r' = r" by simp
      moreover from r l Inr have "r = Inr w" by (simp add: censor_word_token_def)
      ultimately have "uncensored w = word" "censored w = generate_fully_censored_word self word"
        using rp whole False by auto
      then have "censored w = generate_fully_censored_word self1 (uncensored w)"
        using generate_fully_censored_word_cong[OF f(2)] by simp
      from well_formed_save[OF wf1 this] s whole f(3) show ?thesis
        by (simp add: save_censored_word_def)
    qed
  qed
qed


section \<open>The examples\<close>

lemma well_formed_example: "well_formed example_filter"
  by (simp add: well_formed_def example_filter_def cache_ok_def)

lemma well_formed_partial: "well_formed partial_filter"
  by (simp add: well_formed_def partial_filter_def example_filter_def cache_ok_def)

lemma lemmas_of_example:
  "lemmas_of example_env example_filter language ''fuck'' = [''fuck'']"
  "lemmas_of example_env partial_filter language ''fuck'' = [''fuck'']"
  "lemmas_of example_env example_filter language ''hello'' = [''hello'']"
  by (simp_all add: lemmas_of_def example_env_def example_filter_def partial_filter_def stems_def
        get_spells_def normal_forms_def OrderedSet_def os_union_def os_add_def)

lemma make_spacy_token_example:
  "make_spacy_token example_env language ''fuck'' = Inr ''fuck''"
  "make_spacy_token example_env language ''hello'' = Inr ''hello''"
  "make_spacy_token example_env language ''fuck '' = Inr ''fuck''"
  "make_spacy_token example_env language [] = Inl ValueError"
  by (simp_all add: make_spacy_token_def example_env_def)

lemma censor_word_part_hello:
  "censor_word_part example_env example_filter (Some ''en'') ''hello'' =
     (Inr (\<lparr>uncensored = ''hello'', censored = ''hello'', original_profane_word = None\<rparr>, False),
      example_filter)"
  unfolding censor_word_part_def Let_def lemmas_of_example
  by (simp add: has_no_profanity_def get_censored_word_def is_profane_word_def dd_getitem_def
        example_filter_def)

lemma censor_word_part_fuck:
  "censor_word_part example_env example_filter (Some ''en'') ''fuck'' =
     (Inr (\<lparr>uncensored = ''fuck'', censored = ''****'', original_profane_word = Some ''fuck''\<rparr>, False),
      example_filter\<lparr>censored_words :=
        [(''fuck'', \<lparr>uncensored = ''fuck'', censored = ''****'', original_profane_word = Some ''fuck''\<rparr>)]\<rparr>)"
  unfolding censor_word_part_def Let_def lemmas_of_example
  by (simp add: has_no_profanity_def get_censored_word_def is_profane_word_def dd_getitem_def
        example_filter_def generate_fully_censored_word_def save_censored_word_def)

lemma example_filter_facts:
  "DEEP \<notin> analyses example_filter" "length (censor_char example_filter) = 1"
  "censor_whole_words example_filter"
  "\<not> list_all (\<lambda>char. [char] = censor_char example_filter) ''hello''"
  "\<not> list_all (\<lambda>char. [char] = censor_char example_filter) ''fuck''"
  by (simp_all add: example_filter_def)

lemma censor_word_token_hello:
  "censor_word_token example_env example_filter (Some ''en'') ''hello'' =
     Some (Inr \<lparr>uncensored = ''hello'', censored = ''hello'', original_profane_word = None\<rparr>,
           example_filter, 1)"
  using censor_word_token_closed(1)[OF example_filter_facts(1,2,4) make_spacy_token_example(2)
          censor_word_part_hello]
  by simp

text \<open>Scenario 1 of the spec.\<close>

lemma censor_word_token_fuck:
  "censor_word_token example_env example_filter (Some ''en'') ''fuck'' =
     Some (Inr \<lparr>uncensored = ''fuck'', censored = ''****'', original_profane_word = Some ''fuck''\<rparr>,
           example_filter\<lparr>censored_words :=
             [(''fuck'', \<lparr>uncensored = ''fuck'', censored = ''****'', original_profane_word = Some ''fuck''\<rparr>)]\<rparr>,
           2)"
  using censor_word_token_closed(2)[OF example_filter_facts(1,2,5) make_spacy_token_example(1)
          censor_word_part_fuck] example_filter_facts(3)
  by (simp add: example_filter_def generate_fully_censored_word_def save_censored_word_def)

lemma censor_word_empty:
  "censor_word_token example_env example_filter (Some ''en'') [] =
     Some (Inr \<lparr>uncensored = [], censored = [], original_profane_word = None\<rparr>, example_filter, 1)"
proof -
  have "censor_word_loop example_env example_filter (Some ''en'') [] None
          \<lparr>uncensored = [], censored = [], original_profane_word = None\<rparr> 0 =
        Some (Inr \<lparr>uncensored = [], censored = [], original_profane_word = None\<rparr>, example_filter, 1)"
    using censor_word_loop_pass[OF example_filter_facts(1), of _ None example_env "Some ''en''" "[]" 0]
    by simp
  then show ?thesis by (simp add: censor_word_token_def example_filter_facts)
qed

section \<open>Claims about censoring one candidate\<close>

text \<open>
  C1. With whole-word masking off, a candidate that is not known clean, has no cache
  entry and has a normalised form in the dictionary should come back with only the
  matched text masked. \<^verbatim>\<open>_censor_word_part\<close> raises \<^verbatim>\<open>UnboundLocalError\<close> there instead and
  leaves the filter as it was: \<^verbatim>\<open>censored\<close> is never assigned on that path.
\<close>

theorem censor_word_part_partial_mode_raises:
  assumes "\<not> censor_whole_words self"
    and "\<not> has_no_profanity self (lemmas_of env self language word)"
    and "get_censored_word self word = None"
    and "list_ex (\<lambda>l. fst (is_profane_word self language l)) (lemmas_of env self language word)"
  shows "censor_word_part env self language word = (Inl UnboundLocalError, self)"
proof -
  let ?ls = "lemmas_of env self language word"
  from assms(4) have "List.find (\<lambda>l. fst (is_profane_word self language l)) ?ls \<noteq> None"
    by (auto simp: find_None_iff list_ex_iff)
  then obtain l where l: "fst (first_profane_lemma self language ?ls) = Some l"
    by (auto simp: first_profane_lemma_find)
  then have "snd (first_profane_lemma self language ?ls) = self"
    by (rule first_profane_lemma_found)
  with l have "first_profane_lemma self language ?ls = (Some l, self)"
    by (cases "first_profane_lemma self language ?ls") simp
  with assms(1-3) show ?thesis
    by (simp add: censor_word_part_def Let_def)
qed

theorem censor_word_part_partial_mode_raises_witness:
  "censor_word_part example_env partial_filter (Some ''en'') ''fuck'' = (Inl UnboundLocalError, partial_filter)"
proof -
  have h1: "\<not> censor_whole_words partial_filter"
    by (simp add: partial_filter_def)
  have h2: "\<not> has_no_profanity partial_filter (lemmas_of example_env partial_filter (Some ''en'') ''fuck'')"
    unfolding lemmas_of_example by (simp add: has_no_profanity_def partial_filter_def example_filter_def)
  have h3: "get_censored_word partial_filter ''fuck'' = None"
    by (simp add: get_censored_word_def partial_filter_def example_filter_def)
  have h4: "list_ex (\<lambda>l. fst (is_profane_word partial_filter (Some ''en'') l))
              (lemmas_of example_env partial_filter (Some ''en'') ''fuck'')"
    unfolding lemmas_of_example
    by (simp add: is_profane_word_def dd_getitem_def partial_filter_def example_filter_def)
  show ?thesis
    by (rule censor_word_part_partial_mode_raises[OF h1 h2 h3 h4])
qed

text \<open>
  C6. When a normalised form of the candidate is a member of the known-clean set,
  \<^verbatim>\<open>_censor_word_part\<close> returns the candidate unchanged with the flag set, whatever the
  dictionaries hold, and changes nothing in the filter.
\<close>

theorem censor_word_part_known_clean:
  assumes "\<exists>l \<in> set (lemmas_of env self language word). l \<in> words_with_no_profanity_inside self"
  shows "censor_word_part env (self\<lparr>profane_word_dictionaries := d\<rparr>) language word =
     (Inr (\<lparr>uncensored = word, censored = word, original_profane_word = None\<rparr>, True),
      self\<lparr>profane_word_dictionaries := d\<rparr>)"
proof -
  have "get_spells (self\<lparr>profane_word_dictionaries := d\<rparr>) language = get_spells self language"
    by (simp add: get_spells_def split: option.splits)
  then have l: "lemmas_of env (self\<lparr>profane_word_dictionaries := d\<rparr>) language word = lemmas_of env self language word"
    by (simp add: lemmas_of_def stems_def)
  from assms have "has_no_profanity (self\<lparr>profane_word_dictionaries := d\<rparr>) (lemmas_of env self language word)"
    using str_in_refl by (auto simp: has_no_profanity_def list_ex_iff)
  then show ?thesis
    by (simp add: censor_word_part_def Let_def l)
qed

theorem censor_word_part_known_clean_witness:
  "censor_word_part example_env (example_filter\<lparr>words_with_no_profanity_inside := {''hello''},
        profane_word_dictionaries := [(''en'', [''hello''])]\<rparr>) None ''hello'' =
     (Inr (\<lparr>uncensored = ''hello'', censored = ''hello'', original_profane_word = None\<rparr>, True),
      example_filter\<lparr>words_with_no_profanity_inside := {''hello''},
        profane_word_dictionaries := [(''en'', [''hello''])]\<rparr>)"
proof -
  have l: "lemmas_of example_env (example_filter\<lparr>words_with_no_profanity_inside := {''hello''}\<rparr>) None ''hello'' = [''hello'']"
    by (simp add: lemmas_of_def example_env_def example_filter_def stems_def
        get_spells_def normal_forms_def OrderedSet_def os_union_def os_add_def)
  have h: "\<exists>l \<in> set (lemmas_of example_env (example_filter\<lparr>words_with_no_profanity_inside := {''hello''}\<rparr>) None ''hello'').
             l \<in> words_with_no_profanity_inside (example_filter\<lparr>words_with_no_profanity_inside := {''hello''}\<rparr>)"
    by (simp add: l)
  show ?thesis
    using censor_word_part_known_clean[OF h, of "[(''en'', [''hello''])]"] by simp
qed

section \<open>Claims about censoring a token\<close>

text \<open>
  C8. In a configured filter the loop of \<^verbatim>\<open>_censor_word\<close> ends, by return or by an
  exception, after at most \<open>n + 1\<close> passes on a token of length \<open>n\<close>.
\<close>

theorem censor_word_passes:
  assumes wf: "well_formed self"
  shows "\<exists>r self' n. censor_word_token env self language t = Some (r, self', n) \<and> n \<le> length t + 1"
  using censor_word_token_total[OF wf, of env language t] by blast

theorem censor_word_passes_witness:
  "well_formed example_filter \<and>
   (\<exists>r self' n. censor_word_token example_env example_filter (Some ''en'') ''fuck'' = Some (r, self', n) \<and>
      n \<le> length ''fuck'' + 1)"
  using censor_word_passes[OF well_formed_example, of example_env "Some ''en''" "''fuck''"]
    well_formed_example by blast


text \<open>
  C2, as amended. In a configured filter \<^verbatim>\<open>_censor_word\<close> ends for every token, and the
  word it returns has the text of the token as its uncensored text and a censored text of
  the same length. \<^verbatim>\<open>censor_word\<close> on a string makes a token of the string first, and the
  two lengths are those of the text of that token, not of the string. No word is returned
  when an exception is raised: by \<^verbatim>\<open>_make_spacy_token\<close>, or the \<^verbatim>\<open>UnboundLocalError\<close> of C1
  with whole-word masking off.
\<close>

theorem censor_word_length:
  assumes wf: "well_formed self"
  shows "(\<exists>r self' n. censor_word_token env self language t = Some (r, self', n) \<and>
           (case r of
              Inr w \<Rightarrow> uncensored w = t \<and> length (censored w) = length t
            | Inl e \<Rightarrow> e = UnboundLocalError \<and> \<not> censor_whole_words self \<or>
                       (\<exists>s'. make_spacy_token env language s' = Inl e))) \<and>
         (\<exists>r self' n. censor_word env self language s = Some (r, self', n) \<and>
           (case r of
              Inr w \<Rightarrow> make_spacy_token env language s = Inr (uncensored w) \<and>
                       length (censored w) = length (uncensored w)
            | Inl e \<Rightarrow> e = UnboundLocalError \<and> \<not> censor_whole_words self \<or>
                       (\<exists>s'. make_spacy_token env language s' = Inl e)))"
proof
  show "\<exists>r self' n. censor_word_token env self language t = Some (r, self', n) \<and>
           (case r of
              Inr w \<Rightarrow> uncensored w = t \<and> length (censored w) = length t
            | Inl e \<Rightarrow> e = UnboundLocalError \<and> \<not> censor_whole_words self \<or>
                       (\<exists>s'. make_spacy_token env language s' = Inl e))"
  proof -
    obtain r self' n where "censor_word_token env self language t = Some (r, self', n)"
      and "case r of
          Inr w \<Rightarrow> uncensored w = t \<and> length (censored w) = length t \<and>
                   (censor_whole_words self \<longrightarrow>
                      censored w = t \<or> censored w = generate_fully_censored_word self t)
        | Inl e \<Rightarrow> e = UnboundLocalError \<and> \<not> censor_whole_words self \<or>
                   (\<exists>s. make_spacy_token env language s = Inl e)"
      using censor_word_token_total[OF wf, of env language t] by blast
    then show ?thesis by (cases r) auto
  qed
next
  show "\<exists>r self' n. censor_word env self language s = Some (r, self', n) \<and>
           (case r of
              Inr w \<Rightarrow> make_spacy_token env language s = Inr (uncensored w) \<and>
                       length (censored w) = length (uncensored w)
            | Inl e \<Rightarrow> e = UnboundLocalError \<and> \<not> censor_whole_words self \<or>
                       (\<exists>s'. make_spacy_token env language s' = Inl e))"
  proof (cases "make_spacy_token env language s")
    case (Inl e)
    then have "censor_word env self language s = Some (Inl e, self, 0)"
      by (simp add: censor_word_def)
    with Inl show ?thesis by auto
  next
    case (Inr token)
    then have "censor_word env self language s = censor_word_token env self language token"
      by (simp add: censor_word_def)
    moreover obtain r self' n where "censor_word_token env self language token = Some (r, self', n)"
      and "case r of
          Inr w \<Rightarrow> uncensored w = token \<and> length (censored w) = length token \<and>
                   (censor_whole_words self \<longrightarrow>
                      censored w = token \<or> censored w = generate_fully_censored_word self token)
        | Inl e \<Rightarrow> e = UnboundLocalError \<and> \<not> censor_whole_words self \<or>
                   (\<exists>s. make_spacy_token env language s = Inl e)"
      using censor_word_token_total[OF wf, of env language token] by blast
    ultimately show ?thesis using Inr by (cases r) auto
  qed
qed

theorem censor_word_length_witness:
  "well_formed example_filter \<and>
   (\<exists>r self' n. censor_word example_env example_filter (Some ''en'') ''fuck '' = Some (r, self', n) \<and>
     (case r of
        Inr w \<Rightarrow> make_spacy_token example_env (Some ''en'') ''fuck '' = Inr (uncensored w) \<and>
                 length (censored w) = length (uncensored w)
      | Inl e \<Rightarrow> e = UnboundLocalError \<and> \<not> censor_whole_words example_filter \<or>
                 (\<exists>s'. make_spacy_token example_env (Some ''en'') s' = Inl e)))"
  using censor_word_length[OF well_formed_example, of example_env "Some ''en''" "''fuck''" "''fuck ''"]
    well_formed_example by blast

text \<open>
  C2 as stated fails for strings: \<^verbatim>\<open>censor_word\<close> on the five characters of \<^verbatim>\<open>fuck\<close> and a
  space returns the four masked characters of the token \<^verbatim>\<open>fuck\<close>, and on the empty string
  it raises and returns no word.
\<close>

theorem censor_word_length_counterexample:
  "censor_word example_env example_filter (Some ''en'') ''fuck '' =
     Some (Inr \<lparr>uncensored = ''fuck'', censored = ''****'', original_profane_word = Some ''fuck''\<rparr>,
           example_filter\<lparr>censored_words :=
             [(''fuck'', \<lparr>uncensored = ''fuck'', censored = ''****'', original_profane_word = Some ''fuck''\<rparr>)]\<rparr>,
           2) \<and>
   length ''****'' \<noteq> length ''fuck '' \<and>
   censor_word example_env example_filter (Some ''en'') [] = Some (Inl ValueError, example_filter, 0)"
  by (simp add: censor_word_def make_spacy_token_example censor_word_token_fuck)

text \<open>
  C5, as amended. Censoring a token of a configured filter ends and leaves the known-clean
  set as it was, whatever the token and whatever the outcome: nothing is recorded,
  because \<^verbatim>\<open>_save_word_with_no_profanity_inside\<close> is called only under
  \<^verbatim>\<open>AnalysisType.DEEP in self.analyses\<close>. In particular a token whose text has no normalised
  form in the dictionary and no cache entry is returned unchanged after one pass, with
  both caches as they were.
\<close>

theorem censor_word_no_match:
  assumes wf: "well_formed self"
  shows "(\<exists>r self' n. censor_word_token env self language word = Some (r, self', n) \<and>
            words_with_no_profanity_inside self' = words_with_no_profanity_inside self) \<and>
         (make_spacy_token env language word = Inr word \<and>
          \<not> list_ex (\<lambda>l. fst (is_profane_word self language l)) (lemmas_of env self language word) \<and>
          get_censored_word self word = None
            \<longrightarrow> (\<exists>self'. censor_word_token env self language word =
                    Some (Inr \<lparr>uncensored = word, censored = word, original_profane_word = None\<rparr>, self', 1) \<and>
                  words_with_no_profanity_inside self' = words_with_no_profanity_inside self \<and>
                  censored_words self' = censored_words self))"
proof -
  from wf have len: "length (censor_char self) = 1" and nd: "DEEP \<notin> analyses self"
    by (simp_all add: well_formed_def)
  let ?cur = "\<lparr>uncensored = word, censored = word, original_profane_word = None\<rparr>"
  let ?ls = "lemmas_of env self language word"
  obtain r self' n where t: "censor_word_token env self language word = Some (r, self', n)"
    using censor_word_token_total[OF wf, of env language word] by blast
  have a: "\<exists>r self' n. censor_word_token env self language word = Some (r, self', n) \<and>
            words_with_no_profanity_inside self' = words_with_no_profanity_inside self"
    using t censor_word_token_frame(4)[OF t nd] by blast
  have b: "\<exists>self'. censor_word_token env self language word = Some (Inr ?cur, self', 1) \<and>
                  words_with_no_profanity_inside self' = words_with_no_profanity_inside self \<and>
                  censored_words self' = censored_words self"
    if mk: "make_spacy_token env language word = Inr word"
      and np: "\<not> list_ex (\<lambda>l. fst (is_profane_word self language l)) ?ls"
      and nc: "get_censored_word self word = None"
  proof (cases "list_all (\<lambda>char. [char] = censor_char self) word")
    case True
    have ne: "Some ?cur \<noteq> None" by simp
    have "censor_word_loop env self language word None ?cur 0 = Some (Inr ?cur, self, 1)"
      using censor_word_loop_pass[OF nd ne, of env language word 0] True by simp
    with nd have "censor_word_token env self language word = Some (Inr ?cur, self, 1)"
      by (simp add: censor_word_token_def)
    then show ?thesis by simp
  next
    case False
    from np have "fst (first_profane_lemma self language ?ls) = None"
      by (auto simp: first_profane_lemma_find find_None_iff list_ex_iff)
    moreover obtain d where "snd (first_profane_lemma self language ?ls) = self\<lparr>profane_word_dictionaries := d\<rparr>"
      using first_profane_lemma_state[of self language ?ls] by blast
    ultimately have f: "first_profane_lemma self language ?ls = (None, self\<lparr>profane_word_dictionaries := d\<rparr>)"
      by (cases "first_profane_lemma self language ?ls") simp
    obtain self1 where c: "censor_word_part env self language word =
        (Inr (?cur, has_no_profanity self ?ls), self1)"
      and s1: "words_with_no_profanity_inside self1 = words_with_no_profanity_inside self"
              "censored_words self1 = censored_words self"
      using nc f by (cases "has_no_profanity self ?ls") (simp_all add: censor_word_part_def Let_def)
    have "censor_word_token env self language word = Some (Inr ?cur, self1, 1)"
      using censor_word_token_closed(1)[OF nd len False mk c] by simp
    with s1 show ?thesis by simp
  qed
  from a b show ?thesis by blast
qed

theorem censor_word_no_match_witness:
  "well_formed example_filter \<and>
   (\<exists>self'. censor_word_token example_env example_filter (Some ''en'') ''hello'' =
      Some (Inr \<lparr>uncensored = ''hello'', censored = ''hello'', original_profane_word = None\<rparr>, self', 1) \<and>
      words_with_no_profanity_inside self' = words_with_no_profanity_inside example_filter \<and>
      censored_words self' = censored_words example_filter)"
proof -
  have h1: "\<not> list_ex (\<lambda>l. fst (is_profane_word example_filter (Some ''en'') l))
                (lemmas_of example_env example_filter (Some ''en'') ''hello'')"
    unfolding lemmas_of_example
    by (simp add: is_profane_word_def dd_getitem_def example_filter_def)
  have h2: "get_censored_word example_filter ''hello'' = None"
    by (simp add: get_censored_word_def example_filter_def)
  have h3: "make_spacy_token example_env (Some ''en'') ''hello'' = Inr ''hello''"
    by (rule make_spacy_token_example)
  show ?thesis
    using censor_word_no_match[OF well_formed_example, of example_env "Some ''en''" "''hello''"]
      h1 h2 h3 well_formed_example by blast
qed

text \<open>
  C5 as stated fails. \<^verbatim>\<open>hello\<close> has no match in the dictionary and \<^verbatim>\<open>censor_word\<close> returns
  it unchanged, but the known-clean set is as empty after the call as before. \<^verbatim>\<open>hello\<close>
  is a dictionary word for \<^verbatim>\<open>_is_dictionary_word\<close>, as every text but the empty one is while
  deep analysis is off; a token with the empty text is not, its censoring ends with no
  match, and it is not recorded either.
\<close>

theorem known_clean_counterexample:
  "censor_word example_env example_filter (Some ''en'') ''hello'' =
     Some (Inr \<lparr>uncensored = ''hello'', censored = ''hello'', original_profane_word = None\<rparr>,
           example_filter, 1) \<and>
   \<not> fst (is_profane_word example_filter (Some ''en'') ''hello'') \<and>
   is_dictionary_word example_filter (Some ''en'') ''hello'' \<and>
   censor_word_token example_env example_filter (Some ''en'') [] =
     Some (Inr \<lparr>uncensored = [], censored = [], original_profane_word = None\<rparr>, example_filter, 1) \<and>
   \<not> is_dictionary_word example_filter (Some ''en'') [] \<and>
   words_with_no_profanity_inside example_filter = {}"
proof -
  have "censor_word example_env example_filter (Some ''en'') ''hello'' =
     Some (Inr \<lparr>uncensored = ''hello'', censored = ''hello'', original_profane_word = None\<rparr>,
           example_filter, 1)"
    by (simp add: censor_word_def make_spacy_token_example censor_word_token_hello)
  moreover have "\<not> fst (is_profane_word example_filter (Some ''en'') ''hello'')"
    by (simp add: is_profane_word_def dd_getitem_def example_filter_def)
  moreover have "is_dictionary_word example_filter (Some ''en'') ''hello''"
    "\<not> is_dictionary_word example_filter (Some ''en'') []"
    "words_with_no_profanity_inside example_filter = {}"
    by (simp_all add: is_dictionary_word_def get_spells_def example_filter_def)
  ultimately show ?thesis using censor_word_empty by simp
qed

section \<open>Claims about the configuration\<close>

lemma update_files_analyses:
  "analyses (snd (update_profane_word_dictionary_files env self)) = analyses self"
  by (simp add: update_profane_word_dictionary_files_def Let_def)

lemma load_analyses:
  "analyses (snd (load_profane_word_dictionaries env self)) = analyses self"
proof -
  obtain e s1 where u: "update_profane_word_dictionary_files env self = (e, s1)"
    by (cases "update_profane_word_dictionary_files env self")
  with update_files_analyses[of env self] have "analyses s1 = analyses self" by simp
  with u show ?thesis
    by (cases e) (simp_all add: load_profane_word_dictionaries_def)
qed

lemma compute_analyses:
  "analyses (snd (compute_profane_word_dictionaries env self)) = analyses self"
proof -
  obtain e s1 where u: "load_profane_word_dictionaries env self = (e, s1)"
    by (cases "load_profane_word_dictionaries env self")
  with load_analyses[of env self] have "analyses s1 = analyses self" by simp
  with u show ?thesis
    by (cases e) (simp_all add: compute_profane_word_dictionaries_def Let_def)
qed

lemma update_dictionaries_analyses:
  "analyses (snd (update_profane_word_dictionaries env self)) = analyses self"
proof -
  obtain r s1 where u: "compute_profane_word_dictionaries env self = (r, s1)"
    by (cases "compute_profane_word_dictionaries env self")
  with compute_analyses[of env self] have "analyses s1 = analyses self" by simp
  with u show ?thesis
    by (cases r) (simp_all add: update_profane_word_dictionaries_def)
qed

lemma clear_cache_analyses: "analyses (snd (clear_cache env self)) = analyses self"
proof -
  obtain e s1 where u: "update_profane_word_dictionary_files env self = (e, s1)"
    by (cases "update_profane_word_dictionary_files env self")
  with update_files_analyses[of env self] have a1: "analyses s1 = analyses self" by simp
  obtain e2 s2 where v: "update_profane_word_dictionaries env s1 = (e2, s2)"
    by (cases "update_profane_word_dictionaries env s1")
  with update_dictionaries_analyses[of env s1] a1 have a2: "analyses s2 = analyses self" by simp
  from u v a1 a2 show ?thesis
    by (cases e; cases e2) (simp_all add: clear_cache_def clear_words_cache_def)
qed

text \<open>
  A successful \<^verbatim>\<open>clear_cache\<close> leaves both caches empty, so the invariant holds after the
  constructor and after every setter.
\<close>

lemma update_files_censor_char:
  "censor_char (snd (update_profane_word_dictionary_files env self)) = censor_char self"
  by (simp add: update_profane_word_dictionary_files_def Let_def)

lemma load_censor_char:
  "censor_char (snd (load_profane_word_dictionaries env self)) = censor_char self"
proof -
  obtain e s1 where u: "update_profane_word_dictionary_files env self = (e, s1)"
    by (cases "update_profane_word_dictionary_files env self")
  with update_files_censor_char[of env self] have "censor_char s1 = censor_char self" by simp
  with u show ?thesis
    by (cases e) (simp_all add: load_profane_word_dictionaries_def)
qed

lemma compute_censor_char:
  "censor_char (snd (compute_profane_word_dictionaries env self)) = censor_char self"
proof -
  obtain e s1 where u: "load_profane_word_dictionaries env self = (e, s1)"
    by (cases "load_profane_word_dictionaries env self")
  with load_censor_char[of env self] have "censor_char s1 = censor_char self" by simp
  with u show ?thesis
    by (cases e) (simp_all add: compute_profane_word_dictionaries_def Let_def)
qed

lemma update_dictionaries_censor_char:
  "censor_char (snd (update_profane_word_dictionaries env self)) = censor_char self"
proof -
  obtain r s1 where u: "compute_profane_word_dictionaries env self = (r, s1)"
    by (cases "compute_profane_word_dictionaries env self")
  with compute_censor_char[of env self] have "censor_char s1 = censor_char self" by simp
  with u show ?thesis
    by (cases r) (simp_all add: update_profane_word_dictionaries_def)
qed

lemma clear_cache_well_formed:
  assumes "length (censor_char self) = 1" and "DEEP \<notin> analyses self"
    and "\<not> cache_clearing_disabled self" and "fst (clear_cache env self) = None"
  shows "well_formed (snd (clear_cache env self)) \<and> censored_words (snd (clear_cache env self)) = []"
proof -
  obtain e s1 where u: "update_profane_word_dictionary_files env self = (e, s1)"
    by (cases "update_profane_word_dictionary_files env self")
  obtain e2 s2 where v: "update_profane_word_dictionaries env s1 = (e2, s2)"
    by (cases "update_profane_word_dictionaries env s1")
  from assms(3,4) u v have e: "e = None" "e2 = None"
    by (auto simp: clear_cache_def split: option.splits)
  with assms(3) u v have s: "snd (clear_cache env self) = clear_words_cache s2"
    by (simp add: clear_cache_def)
  have c1: "censor_char s1 = censor_char self"
    using update_files_censor_char[of env self] u by simp
  have c2: "censor_char s2 = censor_char s1"
    using update_dictionaries_censor_char[of env s1] v by simp
  have a: "analyses (snd (clear_cache env self)) = analyses self" by (rule clear_cache_analyses)
  have "censor_char (clear_words_cache s2) = censor_char self"
    "censored_words (clear_words_cache s2) = []"
    using c1 c2 by (simp_all add: clear_words_cache_def)
  with a assms(1,2) show ?thesis
    by (simp add: s well_formed_def cache_ok_def)
qed

text \<open>
  C10. Whatever is passed to the setter of \<^verbatim>\<open>analyses\<close>, the filter has no analysis
  afterwards, and \<^verbatim>\<open>clear_cache\<close> and \<^verbatim>\<open>_censor_word\<close> leave the analyses as they are. While
  \<^verbatim>\<open>DEEP\<close> is not among them, the inner loop of \<^verbatim>\<open>_censor_word\<close> returns what it returns when
  the generator has no further substring, so it ends after the first candidate, which is
  the whole current text; and \<^verbatim>\<open>_censor_word\<close> adds nothing to the known-clean set.
\<close>

theorem analyses_always_empty:
  "analyses (snd (set_analyses env self v)) = {} \<and>
   analyses (snd (clear_cache env self)) = analyses self \<and>
   (DEEP \<notin> analyses self \<longrightarrow>
      censor_word_scan env self language word prev cur np sub g =
        censor_word_scan env self language word prev cur np sub \<lparr>drop_intervals = {}, pending = []\<rparr> \<and>
      map_option fst (gen_next (drop_substrings (drop_fully_censored_words self
                                  (substrings_indexes t True)))) =
        (if list_all (\<lambda>char. [char] = censor_char self) t then None else Some (t, 0, length t)) \<and>
      (\<forall>r self' n. censor_word_token env self language t = Some (r, self', n) \<longrightarrow>
         analyses self' = analyses self \<and>
         words_with_no_profanity_inside self' = words_with_no_profanity_inside self))"
proof -
  have a: "analyses (snd (set_analyses env self v)) = {}"
    by (simp add: set_analyses_def clear_cache_analyses AVAILABLE_ANALYSES_def)
  have b: "censor_word_scan env self language word prev cur np sub g =
        censor_word_scan env self language word prev cur np sub \<lparr>drop_intervals = {}, pending = []\<rparr>"
    if "DEEP \<notin> analyses self"
  proof -
    obtain part start finish where "sub = (part, start, finish)" by (cases sub)
    then show ?thesis by (simp add: censor_word_scan_no_deep[OF that])
  qed
  have c: "map_option fst (gen_next (drop_substrings (drop_fully_censored_words self
                                  (substrings_indexes t True)))) =
        (if list_all (\<lambda>char. [char] = censor_char self) t then None else Some (t, 0, length t))"
    by (simp add: first_candidate)
  have d: "analyses self' = analyses self \<and>
         words_with_no_profanity_inside self' = words_with_no_profanity_inside self"
    if "DEEP \<notin> analyses self" "censor_word_token env self language t = Some (r, self', n)"
    for r self' n
    using censor_word_token_frame(1,4)[OF that(2,1)] by simp
  from a b c d clear_cache_analyses[of env self] show ?thesis by blast
qed

theorem analyses_always_empty_witness:
  "analyses (snd (set_analyses example_env example_filter {DEEP})) = {} \<and>
   DEEP \<notin> analyses example_filter \<and>
   map_option fst (gen_next (drop_substrings (drop_fully_censored_words example_filter
                                  (substrings_indexes ''fuck'' True)))) = Some (''fuck'', 0, 4) \<and>
   (\<exists>r self' n. censor_word_token example_env example_filter (Some ''en'') ''fuck'' = Some (r, self', n) \<and>
      analyses self' = {} \<and> words_with_no_profanity_inside self' = {})"
proof -
  have h: "DEEP \<notin> analyses example_filter" by (simp add: example_filter_def)
  have e: "analyses example_filter = {}" "words_with_no_profanity_inside example_filter = {}"
    "\<not> list_all (\<lambda>char. [char] = censor_char example_filter) ''fuck''"
    by (simp_all add: example_filter_def)
  show ?thesis
    using analyses_always_empty[of example_env example_filter "{DEEP}" "Some ''en''" _ _ _ _ _ _ "''fuck''"]
      h e censor_word_token_fuck
    by simp
qed


section \<open>Claims about the substring enumerator\<close>

lemma gen_resume_skips:
  "gen_resume D xs = None \<Longrightarrow> \<forall>(w, s, f) \<in> set xs. \<exists>(a, b) \<in> D. a \<le> s \<and> f \<le> b"
  "gen_resume D xs = Some ((word, start, finish), g') \<Longrightarrow>
     drop_intervals g' = D \<and>
     (\<exists>skipped. xs = skipped @ (word, start, finish) # pending g' \<and>
        (\<forall>(w, s, f) \<in> set skipped. \<exists>(a, b) \<in> D. a \<le> s \<and> f \<le> b)) \<and>
     \<not> (\<exists>(a, b) \<in> D. a \<le> start \<and> finish \<le> b)"
proof (induction xs)
  case Nil
  {
    case 1
    then show ?case by simp
  next
    case 2
    then show ?case by simp
  }
next
  case (Cons x xs)
  obtain w s f where x: "x = (w, s, f)" by (cases x)
  let ?keep = "\<forall>(drop_start, drop_finish) \<in> D. s < drop_start \<or> f > drop_finish"
  have c: "\<not> ?keep \<Longrightarrow> \<exists>(a, b) \<in> D. a \<le> s \<and> f \<le> b" by (fastforce simp: not_le)
  {
    case 1
    then have nk: "\<not> ?keep" and r: "gen_resume D xs = None"
      by (auto simp: x split: if_splits)
    from Cons.IH(1)[OF r] c[OF nk] show ?case by (simp add: x)
  next
    case 2
    show ?case
    proof (cases ?keep)
      case True
      with 2 have "(word, start, finish) = (w, s, f)" and "g' = \<lparr>drop_intervals = D, pending = xs\<rparr>"
        by (auto simp: x)
      with True show ?thesis by (auto simp: x not_less intro!: exI[of _ "[]"])
    next
      case False
      with 2 have r: "gen_resume D xs = Some ((word, start, finish), g')" by (simp add: x)
      from Cons.IH(2)[OF r] obtain skipped where
        sk: "xs = skipped @ (word, start, finish) # pending g'"
          "\<forall>(w, s, f) \<in> set skipped. \<exists>(a, b) \<in> D. a \<le> s \<and> f \<le> b"
        and rest: "drop_intervals g' = D" "\<not> (\<exists>(a, b) \<in> D. a \<le> start \<and> finish \<le> b)"
        by blast
      have "x # xs = (x # skipped) @ (word, start, finish) # pending g'" using sk(1) by simp
      moreover have "\<forall>(w, s, f) \<in> set (x # skipped). \<exists>(a, b) \<in> D. a \<le> s \<and> f \<le> b"
        using sk(2) c[OF False] by (simp add: x)
      ultimately show ?thesis using rest by blast
    qed
  }
qed

text \<open>
  C3, as amended. After \<^verbatim>\<open>send\<close>, with the interval just sent added to the suppressed ones
  when both its ends are given, \<^verbatim>\<open>_drop_substrings\<close> skips exactly the spans that lie within
  a suppressed interval: the span it yields next does not lie within any, every span
  passed over on the way does, and so does every span left when the enumeration ends. A
  span that only overlaps a suppressed interval is yielded.
\<close>

theorem drop_substrings_skips_contained:
  assumes D: "D = (case sent of (Some drop_start, Some drop_finish) \<Rightarrow>
                      insert (drop_start, drop_finish) (drop_intervals g)
                   | _ \<Rightarrow> drop_intervals g)"
  shows "(gen_send g sent = None \<longrightarrow>
            (\<forall>(w, s, f) \<in> set (pending g). \<exists>(a, b) \<in> D. a \<le> s \<and> f \<le> b)) \<and>
         (\<forall>word start finish g'. gen_send g sent = Some ((word, start, finish), g') \<longrightarrow>
            drop_intervals g' = D \<and>
            (\<exists>skipped. pending g = skipped @ (word, start, finish) # pending g' \<and>
               (\<forall>(w, s, f) \<in> set skipped. \<exists>(a, b) \<in> D. a \<le> s \<and> f \<le> b)) \<and>
            \<not> (\<exists>(a, b) \<in> D. a \<le> start \<and> finish \<le> b))"
proof -
  have s: "gen_send g sent = gen_resume D (pending g)"
    by (simp add: gen_send_def D split: prod.splits option.splits)
  show ?thesis
    unfolding s using gen_resume_skips[of D "pending g"] by blast
qed

theorem drop_substrings_skips_contained_witness:
  "gen_send \<lparr>drop_intervals = {(0, 2)}, pending = [(''a'', 0, 1), (''b'', 1, 2), (''c'', 2, 3)]\<rparr> (None, None) =
     Some ((''c'', 2, 3), \<lparr>drop_intervals = {(0, 2)}, pending = []\<rparr>) \<and>
   [(''a'', 0, 1), (''b'', 1, 2), (''c'', 2, 3)] = [(''a'', 0, 1), (''b'', 1, 2)] @ [(''c'', 2, 3)] \<and>
   \<not> (\<exists>(a, b) \<in> {(0::nat, 2::nat)}. a \<le> 2 \<and> 3 \<le> b)"
proof -
  let ?g = "\<lparr>drop_intervals = {(0::nat, 2::nat)}, pending = [(''a'', 0, 1), (''b'', 1, 2), (''c'', 2, 3)]\<rparr>"
  have h: "gen_send ?g (None, None) = Some ((''c'', 2, 3), \<lparr>drop_intervals = {(0, 2)}, pending = []\<rparr>)"
    by (simp add: gen_send_def)
  have d: "{(0::nat, 2::nat)} = (case (None, None) of (Some drop_start, Some drop_finish) \<Rightarrow>
                      insert (drop_start, drop_finish) (drop_intervals ?g)
                   | _ \<Rightarrow> drop_intervals ?g)"
    by simp
  show ?thesis
    using drop_substrings_skips_contained[OF d] h by simp
qed

text \<open>
  C3 as stated fails. Over the substrings of \<^verbatim>\<open>abc\<close>, longest first, the consumer receives
  \<^verbatim>\<open>abc\<close> and \<^verbatim>\<open>ab\<close> and then suppresses the interval from 0 to 2 of \<^verbatim>\<open>ab\<close>. The next span
  is \<^verbatim>\<open>bc\<close> from 1 to 3: it starts before the end of the suppressed interval and ends after
  its start, and it is yielded.
\<close>

theorem drop_substrings_counterexample:
  "gen_next (drop_substrings (substrings_indexes ''abc'' True)) =
     Some ((''abc'', 0, 3),
           \<lparr>drop_intervals = {},
            pending = [(''ab'', 0, 2), (''bc'', 1, 3), (''a'', 0, 1), (''b'', 1, 2), (''c'', 2, 3)]\<rparr>) \<and>
   gen_send \<lparr>drop_intervals = {},
             pending = [(''ab'', 0, 2), (''bc'', 1, 3), (''a'', 0, 1), (''b'', 1, 2), (''c'', 2, 3)]\<rparr>
            (None, None) =
     Some ((''ab'', 0, 2),
           \<lparr>drop_intervals = {},
            pending = [(''bc'', 1, 3), (''a'', 0, 1), (''b'', 1, 2), (''c'', 2, 3)]\<rparr>) \<and>
   gen_send \<lparr>drop_intervals = {},
             pending = [(''bc'', 1, 3), (''a'', 0, 1), (''b'', 1, 2), (''c'', 2, 3)]\<rparr>
            (Some 0, Some 2) =
     Some ((''bc'', 1, 3),
           \<lparr>drop_intervals = {(0, 2)}, pending = [(''a'', 0, 1), (''b'', 1, 2), (''c'', 2, 3)]\<rparr>) \<and>
   (1::nat) < 2 \<and> (3::nat) > 0"
  by (simp add: gen_next_def gen_send_def drop_substrings_def substrings_indexes_def upt_rec)


section \<open>Claims about dictionary resolution\<close>

lemma set_os_add: "set (os_add s x) = insert x (set s)"
  by (auto simp: os_add_def)

lemma set_os_union: "set (os_union a b) = set a \<union> set b"
  unfolding os_union_def by (induction b arbitrary: a) (auto simp: set_os_add)

lemma os_union_subset: "set b \<subseteq> set a \<Longrightarrow> os_union a b = a"
  unfolding os_union_def by (induction b arbitrary: a) (auto simp: os_add_def)

lemma os_union_twice: "os_union (os_union a b) b = os_union a b"
  by (rule os_union_subset) (simp add: set_os_union)

lemma os_union_Nil [simp]: "os_union a [] = a"
  by (simp add: os_union_def)

lemma dd_get_update: "dd_get (AList.update k v r) l = (if l = k then v else dd_get r l)"
  by (simp add: dd_get_def update_conv')

lemma dd_get_merge_extra:
  "dd_get (merge_extra r extra langs) l =
     (if l \<in> set langs then os_union (dd_get r l) (dd_get extra l) else dd_get r l)"
proof (induction langs arbitrary: r)
  case Nil
  then show ?case by (simp add: merge_extra_def)
next
  case (Cons k ks)
  let ?r = "AList.update k (os_union (dd_get r k) (dd_get extra k)) r"
  have "merge_extra r extra (k # ks) = merge_extra ?r extra ks" by (simp add: merge_extra_def)
  then show ?case
    by (simp add: Cons[of ?r] dd_get_update os_union_twice)
qed

lemma dd_get_missing: "l \<notin> fst ` set d \<Longrightarrow> dd_get d l = []"
proof -
  assume "l \<notin> fst ` set d"
  then have "map_of d l = None" by (simp add: map_of_eq_None_iff)
  then show ?thesis by (simp add: dd_get_def)
qed

lemma dd_get_loaded:
  "dd_get (map (\<lambda>language. (language, f language)) (filter (\<lambda>l. data_dir env l \<noteq> None) ls)) l =
     (if l \<in> set ls \<and> data_dir env l \<noteq> None then f l else [])"
  by (auto simp: dd_get_def map_of_map_restrict restrict_map_def)

text \<open>
  C4, as amended. The resolved dictionary of a configured language is, when the custom
  dictionaries have any entry at all, the custom dictionary of the language (empty when
  the language has none), and the base dictionary of the language when there is no custom
  dictionary for any language; the extra dictionary of the language is united with it.
\<close>

theorem profane_word_dictionaries_resolution:
  assumes c: "compute_profane_word_dictionaries env self = (Inr d, self1)"
    and l: "language \<in> set (languages self)"
  shows "dd_get d language =
     os_union (if custom_profane_word_dictionaries self \<noteq> []
               then dd_get (custom_profane_word_dictionaries self) language
               else base_dictionary env language)
              (dd_get (extra_profane_word_dictionaries self) language)"
proof -
  let ?extra = "extra_profane_word_dictionaries self"
  let ?langs = "filter (\<lambda>language. language \<in> fst ` set ?extra) (languages self)"
  have m: "dd_get (merge_extra r ?extra ?langs) language = os_union (dd_get r language) (dd_get ?extra language)"
    for r
    using l by (cases "language \<in> fst ` set ?extra") (simp_all add: dd_get_merge_extra dd_get_missing)
  show ?thesis
  proof (cases "custom_profane_word_dictionaries self = []")
    case False
    with c have "d = merge_extra (custom_profane_word_dictionaries self) ?extra ?langs"
      by (auto simp: compute_profane_word_dictionaries_def Let_def)
    with False m show ?thesis by simp
  next
    case True
    let ?files = "filter (\<lambda>language. data_dir env language \<noteq> None) (languages self)"
    let ?self1 = "self\<lparr>profane_word_dictionary_files := ?files\<rparr>"
    let ?base = "map (\<lambda>language. (language, OrderedSet (map strip (the (data_dir env language))))) ?files"
    from c True have ne: "?files \<noteq> []"
      by (auto simp: compute_profane_word_dictionaries_def load_profane_word_dictionaries_def
            update_profane_word_dictionary_files_def Let_def split: if_splits)
    then have "load_profane_word_dictionaries env self = (None, ?self1\<lparr>censor_dictionaries := ?base\<rparr>)"
      by (simp add: load_profane_word_dictionaries_def update_profane_word_dictionary_files_def Let_def)
    with c True have "d = merge_extra ?base ?extra ?langs"
      by (auto simp: compute_profane_word_dictionaries_def Let_def)
    moreover have "dd_get ?base language =
        (if language \<in> set (languages self) \<and> data_dir env language \<noteq> None
         then OrderedSet (map strip (the (data_dir env language))) else [])"
      by (rule dd_get_loaded)
    then have "dd_get ?base language = base_dictionary env language"
      using l by (auto simp: base_dictionary_def split: option.splits)
    ultimately show ?thesis using True m by simp
  qed
qed

theorem profane_word_dictionaries_resolution_witness:
  "compute_profane_word_dictionaries bilingual_env bilingual_filter =
     (Inr [(''en'', [''darn''])], bilingual_filter) \<and>
   ''en'' \<in> set (languages bilingual_filter) \<and>
   dd_get [(''en'', [''darn''])] ''en'' =
     os_union (dd_get (custom_profane_word_dictionaries bilingual_filter) ''en'')
              (dd_get (extra_profane_word_dictionaries bilingual_filter) ''en'')"
proof -
  have c: "compute_profane_word_dictionaries bilingual_env bilingual_filter =
     (Inr [(''en'', [''darn''])], bilingual_filter)"
    by (simp add: compute_profane_word_dictionaries_def bilingual_filter_def example_filter_def
          merge_extra_def)
  have l: "''en'' \<in> set (languages bilingual_filter)"
    by (simp add: bilingual_filter_def)
  have n: "custom_profane_word_dictionaries bilingual_filter \<noteq> []"
    by (simp add: bilingual_filter_def)
  show ?thesis
    using profane_word_dictionaries_resolution[OF c l] c l n by simp
qed

text \<open>
  C4 as stated fails. With a custom dictionary for English only, Russian, the other
  configured language, resolves to no word at all, where the claim gives it the words of
  its file.
\<close>

theorem profane_word_dictionaries_counterexample:
  "compute_profane_word_dictionaries bilingual_env bilingual_filter =
     (Inr [(''en'', [''darn''])], bilingual_filter) \<and>
   dd_get [(''en'', [''darn''])] ''ru'' = [] \<and>
   spec_resolution bilingual_env bilingual_filter ''ru'' = [''durak'']"
  by (simp add: compute_profane_word_dictionaries_def bilingual_filter_def example_filter_def
        merge_extra_def dd_get_def spec_resolution_def base_dictionary_def bilingual_env_def
        example_env_def OrderedSet_def os_union_def os_add_def strip_def isspace_def)

section \<open>Claims about the configuration error\<close>




end
